theory Spec2Isabelle
  imports Complex_Main "HOL-Library.Sublist" "HOL-Library.Log_Nat"
begin

section \<open>Python values used by \<open>contributors/markdown.py\<close>\<close>

text \<open>
  A Python \<open>str\<close> is modelled as an Isabelle \<open>string\<close>, one \<open>char\<close> per code point;
  the model therefore covers text whose code points are below 256. Exceptions are values
  of the type \<open>error\<close>, and every function that can raise returns \<open>error + 'a\<close>.
\<close>

datatype error = UnboundLocalError | IndexError | KeyError | OSError

abbreviation nl :: string where
  "nl \<equiv> [CHR 0x0A]"

text \<open>
  \<open>start_date\<close>, \<open>end_date\<close> and \<open>organization\<close> are a \<open>str\<close> or \<open>None\<close>. In a
  condition both \<open>None\<close> and the empty string are false.
\<close>

fun truthy :: "string option \<Rightarrow> bool" where
  "truthy None = False"
| "truthy (Some s) = (s \<noteq> [])"

text \<open>
  \<open>repository\<close> is a scalar (a \<open>str\<close> or \<open>None\<close>) or a list. The table builder wraps a
  scalar in a one-element list, so a list may hold \<open>None\<close>.
\<close>

datatype repo = RScalar "string option" | RList "string option list"

text \<open>An f-string field \<open>{x}\<close> prints \<open>None\<close> as the word \<open>None\<close>.\<close>

fun fmt_opt :: "string option \<Rightarrow> string" where
  "fmt_opt None = ''None''"
| "fmt_opt (Some s) = s"

fun truthy_repo :: "repo \<Rightarrow> bool" where
  "truthy_repo (RScalar x) = truthy x"
| "truthy_repo (RList xs) = (xs \<noteq> [])"

text \<open>\<open>if not isinstance(repository, list): repository = [repository]\<close>\<close>

fun normalize_repo :: "repo \<Rightarrow> string option list" where
  "normalize_repo (RScalar x) = [x]"
| "normalize_repo (RList xs) = xs"

subsection \<open>\<open>str\<close> of integers and booleans\<close>

definition digit_char :: "nat \<Rightarrow> char" where
  "digit_char d = char_of (48 + d)"

fun str_nat :: "nat \<Rightarrow> string" where
  "str_nat n = (if n < 10 then [digit_char n] else str_nat (n div 10) @ [digit_char (n mod 10)])"

definition str_int :: "int \<Rightarrow> string" where
  "str_int i = (if i < 0 then CHR ''-'' # str_nat (nat (- i)) else str_nat (nat i))"

definition str_bool :: "bool \<Rightarrow> string" where
  "str_bool b = (if b then ''True'' else ''False'')"

text \<open>
  Reading a decimal numeral back: \<open>int_of_decimal\<close> is the integer that a string of
  digits, with or without a minus sign in front, stands for. It is used to state what
  \<open>str\<close> prints.
\<close>

definition digit_value :: "char \<Rightarrow> nat" where
  "digit_value c = of_char c - 48"

definition nat_of_decimal :: "string \<Rightarrow> nat" where
  "nat_of_decimal s = foldl (\<lambda>a c. 10 * a + digit_value c) 0 s"

definition int_of_decimal :: "string \<Rightarrow> int" where
  "int_of_decimal s =
     (case s of
        [] \<Rightarrow> 0
      | c # cs \<Rightarrow> if c = CHR ''-'' then - int (nat_of_decimal cs) else int (nat_of_decimal s))"

subsection \<open>\<open>str.join\<close>, \<open>str.split\<close> and \<open>str.strip\<close>\<close>

fun py_join :: "string \<Rightarrow> string list \<Rightarrow> string" where
  "py_join sep [] = []"
| "py_join sep [x] = x"
| "py_join sep (x # y # ys) = x @ sep @ py_join sep (y # ys)"

text \<open>
  \<open>s.split(sep)\<close> scans from the left and cuts at every occurrence of \<open>sep\<close> that does
  not overlap the previous one; \<open>cur\<close> is the piece read so far. Every call in the source
  passes a non-empty literal separator.
\<close>

function py_split_acc :: "string \<Rightarrow> string \<Rightarrow> string \<Rightarrow> string list" where
  "py_split_acc sep cur [] = [cur]"
| "py_split_acc sep cur (c # cs) =
     (if sep \<noteq> [] \<and> prefix sep (c # cs)
      then cur # py_split_acc sep [] (drop (length sep) (c # cs))
      else py_split_acc sep (cur @ [c]) cs)"
  by pat_completeness auto
termination
  by (relation "measure (\<lambda>(sep, cur, s). length s)") auto

definition py_split :: "string \<Rightarrow> string \<Rightarrow> string list" where
  "py_split sep s = py_split_acc sep [] s"

text \<open>
  The code points below 256 that \<open>str.strip()\<close> removes: tab to carriage return,
  the four separators 28 to 31, space, next line (133) and no-break space (160).
\<close>

definition py_isspace :: "char \<Rightarrow> bool" where
  "py_isspace c = ((of_char c :: nat) \<in> {9, 10, 11, 12, 13, 28, 29, 30, 31, 32, 133, 160})"

definition py_strip :: "string \<Rightarrow> string" where
  "py_strip s = rev (dropWhile py_isspace (rev (dropWhile py_isspace s)))"

section \<open>The contributor record\<close>

text \<open>
  Modelled from the spec: the class \<open>ContributorStats\<close> of \<open>contributor_stats.py\<close>, which
  is not among the sources. The fields are those the spec's data model lists and
  \<open>markdown.py\<close> reads.
\<close>

record ContributorStats =
  username :: string
  contribution_count :: int
  new_contributor :: bool
  commit_url :: string
  organizations :: "string list"
  sponsor_info :: string

section \<open>\<open>get_contributor_table\<close>\<close>

text \<open>
  \<open>organization_contributors\<close> is a \<open>defaultdict(list)\<close>; Python dictionaries keep the
  order in which keys were first inserted, so it is an association list.
  \<open>d[k].append(v)\<close> extends the entry of \<open>k\<close>, or adds a new last entry.
\<close>

type_synonym org_rows = "(string \<times> string list) list"

fun dict_append :: "org_rows \<Rightarrow> string \<Rightarrow> string \<Rightarrow> org_rows" where
  "dict_append [] k v = [(k, [v])]"
| "dict_append ((k', vs) # d) k v =
     (if k' = k then (k', vs @ [v]) # d else (k', vs) # dict_append d k v)"

text \<open>Lines 171 to 179: the column names.\<close>

definition table_columns :: "string option \<Rightarrow> string option \<Rightarrow> string \<Rightarrow> string list" where
  "table_columns start_date end_date sponsor =
     (let columns = [''Username'', ''All Time Contribution Count''];
          columns = (if truthy start_date \<and> truthy end_date
                     then columns @ [''New Contributor''] else columns);
          columns = (if sponsor = ''true'' then columns @ [''Sponsor URL''] else columns)
      in (if truthy start_date \<and> truthy end_date
          then columns @ [''Commits between '' @ fmt_opt start_date @ '' and '' @ fmt_opt end_date]
          else columns @ [''All Commits'']))"

text \<open>Lines 181 and 182: the header block.\<close>

definition table_headers :: "string list \<Rightarrow> string" where
  "table_headers columns =
     ''| '' @ py_join '' | '' columns @ '' |'' @ nl
     @ ''| '' @ py_join '' | '' (replicate (length columns) ''---'') @ '' |'' @ nl"

text \<open>
  Line 205: \<open>url.split("/commits")[0].split("github.com/")[1]\<close>. The first index is
  always in range; the second raises \<open>IndexError\<close> when the text before \<open>/commits\<close>
  has no \<open>github.com/\<close>.
\<close>

definition org_repo_link_name :: "string \<Rightarrow> error + string" where
  "org_repo_link_name url =
     (case py_split ''/commits'' url of
        [] \<Rightarrow> Inl IndexError
      | front # _ \<Rightarrow>
          (case py_split ''github.com/'' front of
             _ # name # _ \<Rightarrow> Inr name
           | _ \<Rightarrow> Inl IndexError))"

text \<open>Lines 202 to 207: the loop over \<open>commit_url_list\<close>, \<open>acc\<close> being \<open>commit_urls\<close>.\<close>

fun link_loop :: "string \<Rightarrow> string list \<Rightarrow> error + string" where
  "link_loop acc [] = Inr acc"
| "link_loop acc (u # us) =
     (let url = py_strip u in
      case org_repo_link_name url of
        Inl e \<Rightarrow> Inl e
      | Inr name \<Rightarrow> link_loop (acc @ (''['' @ name @ ''](''  @ url @ '')'') @ '', '') us)"

text \<open>
  Lines 222 to 226: the loop over the contributor's organizations, left at the first
  organization that is shown. The result is the dictionary and \<open>added_to_org\<close>.
\<close>

fun org_loop :: "org_rows \<Rightarrow> string \<Rightarrow> string list \<Rightarrow> string list \<Rightarrow> org_rows \<times> bool" where
  "org_loop d row shown [] = (d, False)"
| "org_loop d row shown (org # orgs) =
     (if org \<in> set shown \<or> ''all'' \<in> set shown
      then (dict_append d org row, True)
      else org_loop d row shown orgs)"

text \<open>
  The variables that live across iterations of the loop of line 188. \<open>commit_urls\<close>
  is \<open>None\<close> while the name is unbound.
\<close>

record loop_state =
  total_contributions :: int
  repository :: repo
  commit_urls :: "string option"
  organization_contributors :: org_rows

text \<open>Lines 210 to 217: the cells of a row before the commit-reference cell.\<close>

definition row_start :: "string list \<Rightarrow> string \<Rightarrow> ContributorStats \<Rightarrow> string" where
  "row_start columns link_to_profile collaborator =
     (let row = ''| '' @ (if link_to_profile = ''false'' then [] else ''@'')
                @ username collaborator @ '' | ''
                @ str_int (contribution_count collaborator) @ '' |'';
          row = (if ''New Contributor'' \<in> set columns
                 then row @ '' '' @ str_bool (new_contributor collaborator) @ '' |''
                 else row)
      in (if ''Sponsor URL'' \<in> set columns
          then (if sponsor_info collaborator = []
                then row @ '' not sponsorable |''
                else row @ '' [Sponsor Link]('' @ sponsor_info collaborator @ '') |'')
          else row))"

text \<open>
  Lines 189 to 229: one iteration. Line 218 reads \<open>commit_urls\<close>, and raises
  \<open>UnboundLocalError\<close> when no earlier line or iteration has assigned it.
\<close>

definition loop_body ::
  "string list \<Rightarrow> string option \<Rightarrow> string \<Rightarrow> string list
    \<Rightarrow> loop_state \<Rightarrow> ContributorStats \<Rightarrow> error + loop_state" where
  "loop_body columns organization link_to_profile show_organizations_list st collaborator =
     (let total = total_contributions st + contribution_count collaborator;
          urls = (if truthy_repo (repository st)
                  then Some (commit_url collaborator) else commit_urls st);
          repository' = normalize_repo (repository st);
          urls_or_error =
            (if truthy organization \<or> length repository' > 1
             then (case link_loop [] (py_split '','' (commit_url collaborator)) of
                     Inl e \<Rightarrow> Inl e
                   | Inr links \<Rightarrow> Inr (Some links))
             else Inr urls)
      in case urls_or_error of
           Inl e \<Rightarrow> Inl e
         | Inr None \<Rightarrow> Inl UnboundLocalError
         | Inr (Some cell) \<Rightarrow>
             (let row = row_start columns link_to_profile collaborator
                        @ '' '' @ cell @ '' |'' @ nl;
                  (d, added_to_org) =
                     org_loop (organization_contributors st) row
                       show_organizations_list (organizations collaborator);
                  d = (if \<not> added_to_org then dict_append d ''Independent'' row else d)
              in Inr \<lparr> total_contributions = total, repository = RList repository',
                       commit_urls = Some cell, organization_contributors = d \<rparr>))"

text \<open>Line 188: the loop, stopped by the first exception.\<close>

fun contributor_loop ::
  "string list \<Rightarrow> string option \<Rightarrow> string \<Rightarrow> string list
    \<Rightarrow> loop_state \<Rightarrow> ContributorStats list \<Rightarrow> error + loop_state" where
  "contributor_loop columns organization link_to_profile shown st [] = Inr st"
| "contributor_loop columns organization link_to_profile shown st (c # cs) =
     (case loop_body columns organization link_to_profile shown st c of
        Inl e \<Rightarrow> Inl e
      | Inr st' \<Rightarrow> contributor_loop columns organization link_to_profile shown st' cs)"

type_synonym tables = "(string \<times> string) list"

definition get_contributor_table ::
  "ContributorStats list \<Rightarrow> string option \<Rightarrow> string option \<Rightarrow> string option \<Rightarrow> repo
    \<Rightarrow> string \<Rightarrow> string \<Rightarrow> string list \<Rightarrow> error + (tables \<times> int)" where
  "get_contributor_table collaborators start_date end_date organization repository_arg
      sponsor link_to_profile show_organizations_list =
     (let columns = table_columns start_date end_date sponsor;
          headers = table_headers columns;
          st0 = \<lparr> total_contributions = 0, repository = repository_arg,
                  commit_urls = None, organization_contributors = [] \<rparr>
      in case contributor_loop columns organization link_to_profile
                show_organizations_list st0 collaborators of
           Inl e \<Rightarrow> Inl e
         | Inr st \<Rightarrow>
             Inr (map (\<lambda>(org, rows). (org, headers @ concat rows)) (organization_contributors st),
                  total_contributions st))"

section \<open>\<open>get_summary_table\<close>\<close>

subsection \<open>Python floats\<close>

text \<open>
  A Python \<open>float\<close> is an IEEE 754 binary64 number. A finite one is modelled by its exact
  rational value, and every operation rounds its exact result to the nearest binary64
  number, ties to the even significand, as the hardware and CPython do. Infinities and
  NaN do not arise here: every value of the summary lies between 0 and 100.
\<close>

definition round_half_even :: "rat \<Rightarrow> int" where
  "round_half_even x =
     (let f = \<lfloor>x\<rfloor>; d = x - of_int f
      in if d < 1 / 2 then f else if 1 / 2 < d then f + 1 else if even f then f else f + 1)"

text \<open>\<open>bin_exponent x\<close> is the integer \<open>e\<close> with \<open>2 ^ e \<le> x < 2 ^ (e + 1)\<close>, for \<open>0 < x\<close>.\<close>

definition bin_exponent :: "rat \<Rightarrow> int" where
  "bin_exponent x =
     (let (p, q) = quotient_of x; d = bitlen p - bitlen q
      in if 2 powi d \<le> x then d else d - 1)"

text \<open>
  Rounding to binary64: 53 significant bits, the exponent not below that of the
  subnormal numbers.
\<close>

definition fl :: "rat \<Rightarrow> rat" where
  "fl x =
     (if x = 0 then 0
      else (let a = \<bar>x\<bar>; e = max (bin_exponent a) (- 1022); u = 2 powi (e - 52)
            in sgn x * of_int (round_half_even (a / u)) * u))"

text \<open>\<open>a / b\<close> on two integers (true division) and \<open>x * y\<close> on floats.\<close>

definition int_truediv :: "int \<Rightarrow> int \<Rightarrow> rat" where
  "int_truediv a b = fl (of_int a / of_int b)"

definition float_mul :: "rat \<Rightarrow> rat \<Rightarrow> rat" where
  "float_mul x y = fl (x * y)"

text \<open>
  \<open>round(x, 2)\<close>: CPython rounds the exact value of \<open>x\<close> to two decimals, ties to even,
  and returns the float nearest to that decimal.
\<close>

definition py_round2 :: "rat \<Rightarrow> rat" where
  "py_round2 x = fl (of_int (round_half_even (x * 100)) / 100)"

text \<open>
  \<open>str\<close> of a float is the shortest decimal that reads back as the same float, printed
  with at least one digit after the point. \<open>dec_exponent x\<close> is the integer \<open>e\<close> with
  \<open>10 ^ e \<le> x < 10 ^ (e + 1)\<close>; \<open>decimal_digits d x\<close> is the integer made of the first
  \<open>d\<close> significant decimal digits of \<open>x\<close>, rounded. The model prints in positional
  notation, which Python uses for \<open>0\<close> and from \<open>0.0001\<close> up to \<open>10 ^ 16\<close>, and takes
  the decimal nearest to \<open>x\<close> among those of each length, which is Python's choice for a
  float that is nearest to a decimal of at most 15 digits, as every result of
  \<open>round(x, 2)\<close> here is.
\<close>

definition dec_exponent :: "rat \<Rightarrow> int" where
  "dec_exponent x =
     (if 1 \<le> x then int (floorlog 10 (nat \<lfloor>x\<rfloor>)) - 1
      else - int (floorlog 10 (nat (\<lceil>1 / x\<rceil> - 1))))"

definition decimal_digits :: "nat \<Rightarrow> rat \<Rightarrow> int" where
  "decimal_digits d x = round_half_even (x / 10 powi (dec_exponent x - int d + 1))"

definition decimal_value :: "nat \<Rightarrow> rat \<Rightarrow> rat" where
  "decimal_value d x = of_int (decimal_digits d x) * 10 powi (dec_exponent x - int d + 1)"

definition shortest_digits :: "rat \<Rightarrow> nat" where
  "shortest_digits x =
     (case find (\<lambda>d. fl (decimal_value d x) = x) [1 ..< 17] of Some d \<Rightarrow> d | None \<Rightarrow> 17)"

definition zero_pad :: "nat \<Rightarrow> string \<Rightarrow> string" where
  "zero_pad w s = replicate (w - length s) (CHR ''0'') @ s"

definition float_str :: "rat \<Rightarrow> string" where
  "float_str x =
     (if x = 0 then ''0.0''
      else (let a = \<bar>x\<bar>;
                d = shortest_digits a;
                e = dec_exponent a - int d + 1;
                m = nat (decimal_digits d a);
                frac_len = nat (- e);
                scaled = m * 10 ^ nat e;
                int_part = scaled div 10 ^ frac_len;
                frac_part = scaled mod 10 ^ frac_len
            in (if x < 0 then ''-'' else [])
               @ str_nat int_part @ ''.''
               @ (if frac_len = 0 then ''0'' else zero_pad frac_len (str_nat frac_part))))"

text \<open>\<open>new_contributors_percentage\<close> is a float, or the integer \<open>0\<close> of line 127.\<close>

datatype pynum = PyInt int | PyFloat rat

fun str_num :: "pynum \<Rightarrow> string" where
  "str_num (PyInt i) = str_int i"
| "str_num (PyFloat x) = float_str x"

subsection \<open>The summary\<close>

text \<open>Lines 121 to 127.\<close>

definition new_contributors_percentage :: "ContributorStats list \<Rightarrow> pynum" where
  "new_contributors_percentage collaborators =
     (if length collaborators > 0
      then PyFloat (py_round2 (float_mul
             (int_truediv (int (length (filter (\<lambda>x. new_contributor x = True) collaborators)))
                          (int (length collaborators)))
             100))
      else PyInt 0)"

definition get_summary_table ::
  "ContributorStats list \<Rightarrow> string option \<Rightarrow> string option \<Rightarrow> int \<Rightarrow> string" where
  "get_summary_table collaborators start_date end_date contributions_total =
     (if truthy start_date \<and> truthy end_date
      then ''| Total Contributors | Total Contributions | % New Contributors |'' @ nl
           @ ''| --- | --- | --- |'' @ nl
           @ ''| '' @ str_int (int (length collaborators))
           @ '' | '' @ str_int contributions_total
           @ '' | '' @ str_num (new_contributors_percentage collaborators)
           @ ''% |'' @ nl @ nl
      else ''| Total Contributors | Total Contributions |'' @ nl
           @ ''| --- | --- |'' @ nl
           @ ''| '' @ str_int (int (length collaborators))
           @ '' | '' @ str_int contributions_total @ '' |'' @ nl @ nl)"

section \<open>\<open>write_markdown_file\<close> and \<open>write_to_markdown\<close>\<close>

subsection \<open>\<open>str\<close> of the repository\<close>

text \<open>
  \<open>{repository}\<close> in an f-string prints a \<open>str\<close> as it is and a list as the \<open>repr\<close>
  of its elements between brackets. \<open>repr\<close> of a \<open>str\<close> quotes it, with double quotes
  when it holds a single quote and no double quote, and escapes the backslash, the
  quote and the characters that are not printable.
\<close>

definition hex_digit :: "nat \<Rightarrow> char" where
  "hex_digit d = (if d < 10 then char_of (48 + d) else char_of (87 + d))"

definition repr_char :: "char \<Rightarrow> char \<Rightarrow> string" where
  "repr_char quote c =
     (let n = (of_char c :: nat)
      in if c = quote \<or> c = CHR 0x5C then [CHR 0x5C, c]
         else if n = 9 then [CHR 0x5C, CHR ''t'']
         else if n = 10 then [CHR 0x5C, CHR ''n'']
         else if n = 13 then [CHR 0x5C, CHR ''r'']
         else if n < 32 \<or> n = 127 \<or> (128 \<le> n \<and> n \<le> 160) \<or> n = 173
              then [CHR 0x5C, CHR ''x'', hex_digit (n div 16), hex_digit (n mod 16)]
         else [c])"

definition repr_str :: "string \<Rightarrow> string" where
  "repr_str s =
     (let quote = (if CHR 0x27 \<in> set s \<and> CHR 0x22 \<notin> set s then CHR 0x22 else CHR 0x27)
      in [quote] @ concat (map (repr_char quote) s) @ [quote])"

fun repr_opt :: "string option \<Rightarrow> string" where
  "repr_opt None = ''None''"
| "repr_opt (Some s) = repr_str s"

fun fmt_repo :: "repo \<Rightarrow> string" where
  "fmt_repo (RScalar x) = fmt_opt x"
| "fmt_repo (RList xs) = ''['' @ py_join '', '' (map repr_opt xs) @ '']''"

subsection \<open>The document\<close>

text \<open>Line 96: the heading of a group.\<close>

definition org_title :: "string \<Rightarrow> string" where
  "org_title org =
     (if \<not> org = ''Independent''
      then ''## ['' @ org @ ''](https://github.com/'' @ org @ '')'' @ nl
      else ''## '' @ org @ '' '' @ nl)"

text \<open>\<open>table[org]\<close> raises \<open>KeyError\<close> for a key that the dictionary does not have.\<close>

definition dict_get :: "tables \<Rightarrow> string \<Rightarrow> error + string" where
  "dict_get table k = (case map_of table k of None \<Rightarrow> Inl KeyError | Some v \<Rightarrow> Inr v)"

text \<open>Lines 95 to 98: the text written for the groups \<open>orgs\<close>, in this order.\<close>

fun sections_loop :: "tables \<Rightarrow> string list \<Rightarrow> error + string" where
  "sections_loop table [] = Inr []"
| "sections_loop table (org # orgs) =
     (case dict_get table org of
        Inl e \<Rightarrow> Inl e
      | Inr t \<Rightarrow>
          (case sections_loop table orgs of
             Inl e \<Rightarrow> Inl e
           | Inr rest \<Rightarrow> Inr (org_title org @ t @ rest)))"

text \<open>Lines 87 to 98. \<open>orgs.remove\<close> deletes the first occurrence.\<close>

definition org_sections :: "tables \<Rightarrow> error + string" where
  "org_sections table =
     (if length table = 1 \<and> ''Independent'' \<in> set (map fst table)
      then dict_get table ''Independent''
      else (let orgs = map fst table;
                orgs = (if ''Independent'' \<in> set orgs
                        then remove1 ''Independent'' orgs @ [''Independent''] else orgs)
            in sections_loop table orgs))"

text \<open>Lines 78 to 101: everything written to the file, in order.\<close>

definition footer :: string where
  "footer = nl @ '' _this file was generated by the [Organizational Contributors GitHub Action](https://github.com/HCookie/organizational_contributors)_'' @ nl"

definition document_text ::
  "string option \<Rightarrow> string option \<Rightarrow> string option \<Rightarrow> repo \<Rightarrow> tables \<Rightarrow> string
    \<Rightarrow> error + string" where
  "document_text start_date end_date organization repository_arg table summary_table =
     (case org_sections table of
        Inl e \<Rightarrow> Inl e
      | Inr sections \<Rightarrow>
          Inr (''# Contributors'' @ nl @ nl
               @ (if truthy start_date \<and> truthy end_date
                  then ''- Date range for contributor list:  '' @ fmt_opt start_date
                       @ '' to '' @ fmt_opt end_date @ nl
                  else [])
               @ (if truthy organization
                  then ''- Organization: '' @ fmt_opt organization @ nl else [])
               @ (if truthy_repo repository_arg
                  then ''- Repository: '' @ fmt_repo repository_arg @ nl else [])
               @ nl
               @ summary_table
               @ sections
               @ footer))"

text \<open>
  The file system: the text of each file, and the paths that \<open>open(filename, "w")\<close>
  can open. Opening truncates the file, so the new text replaces the old one.
\<close>

record filesystem =
  files :: "string \<rightharpoonup> string"
  writable :: "string \<Rightarrow> bool"

definition write_markdown_file ::
  "string \<Rightarrow> string option \<Rightarrow> string option \<Rightarrow> string option \<Rightarrow> repo \<Rightarrow> tables \<Rightarrow> string
    \<Rightarrow> filesystem \<Rightarrow> error + filesystem" where
  "write_markdown_file filename start_date end_date organization repository_arg table
      summary_table fs =
     (if \<not> writable fs filename then Inl OSError
      else (case document_text start_date end_date organization repository_arg table
                   summary_table of
              Inl e \<Rightarrow> Inl e
            | Inr text \<Rightarrow> Inr (fs\<lparr> files := (files fs)(filename \<mapsto> text) \<rparr>)))"

text \<open>Lines 42 to 57.\<close>

definition write_to_markdown ::
  "ContributorStats list \<Rightarrow> string \<Rightarrow> string option \<Rightarrow> string option \<Rightarrow> string option
    \<Rightarrow> repo \<Rightarrow> string \<Rightarrow> string \<Rightarrow> string list \<Rightarrow> filesystem \<Rightarrow> error + filesystem" where
  "write_to_markdown collaborators filename start_date end_date organization repository_arg
      sponsor link_to_profile show_organizations_list fs =
     (case get_contributor_table collaborators start_date end_date organization repository_arg
             sponsor link_to_profile show_organizations_list of
        Inl e \<Rightarrow> Inl e
      | Inr (table, contributions_total) \<Rightarrow>
          write_markdown_file filename start_date end_date organization repository_arg table
            (get_summary_table collaborators start_date end_date contributions_total) fs)"

section \<open>The table builder as a function of the rows\<close>

text \<open>
  The definitions of this section describe the result of \<open>get_contributor_table\<close>
  without the loop: the commit-reference cell of a contributor, the group it belongs to,
  and the dictionary made from the rows. They are proved equal to the loop below.
\<close>

definition link_mode :: "string option \<Rightarrow> repo \<Rightarrow> bool" where
  "link_mode organization repository_arg =
     (truthy organization \<or> length (normalize_repo repository_arg) > 1)"

definition shown_org :: "string list \<Rightarrow> string \<Rightarrow> bool" where
  "shown_org shown org = (org \<in> set shown \<or> ''all'' \<in> set shown)"

definition group_of :: "string list \<Rightarrow> ContributorStats \<Rightarrow> string" where
  "group_of shown c =
     (case find (shown_org shown) (organizations c) of
        Some org \<Rightarrow> org
      | None \<Rightarrow> ''Independent'')"

definition commit_cell :: "string option \<Rightarrow> repo \<Rightarrow> ContributorStats \<Rightarrow> error + string" where
  "commit_cell organization repository_arg c =
     (if link_mode organization repository_arg
      then link_loop [] (py_split '','' (commit_url c))
      else if truthy_repo repository_arg then Inr (commit_url c)
      else Inl UnboundLocalError)"

fun commit_cells :: "string option \<Rightarrow> repo \<Rightarrow> ContributorStats list \<Rightarrow> error + string list" where
  "commit_cells organization repository_arg [] = Inr []"
| "commit_cells organization repository_arg (c # cs) =
     (case commit_cell organization repository_arg c of
        Inl e \<Rightarrow> Inl e
      | Inr cell \<Rightarrow>
          (case commit_cells organization repository_arg cs of
             Inl e \<Rightarrow> Inl e
           | Inr cells \<Rightarrow> Inr (cell # cells)))"

definition row_text :: "string list \<Rightarrow> string \<Rightarrow> ContributorStats \<Rightarrow> string \<Rightarrow> string" where
  "row_text columns link_to_profile c cell =
     row_start columns link_to_profile c @ '' '' @ cell @ '' |'' @ nl"

fun group_rows :: "org_rows \<Rightarrow> (string \<times> string) list \<Rightarrow> org_rows" where
  "group_rows d [] = d"
| "group_rows d ((k, v) # kvs) = group_rows (dict_append d k v) kvs"

definition keyed_rows ::
  "string list \<Rightarrow> string \<Rightarrow> string list \<Rightarrow> ContributorStats list \<Rightarrow> string list
    \<Rightarrow> (string \<times> string) list" where
  "keyed_rows columns link_to_profile shown cs cells =
     map (\<lambda>(c, cell). (group_of shown c, row_text columns link_to_profile c cell)) (zip cs cells)"

definition render_tables :: "string \<Rightarrow> org_rows \<Rightarrow> tables" where
  "render_tables headers d = map (\<lambda>(org, rows). (org, headers @ concat rows)) d"

text \<open>What holds of the loop's variables before each iteration.\<close>

definition loop_inv :: "string option \<Rightarrow> repo \<Rightarrow> loop_state \<Rightarrow> bool" where
  "loop_inv organization repository_arg st =
     (normalize_repo (repository st) = normalize_repo repository_arg \<and>
      (link_mode organization repository_arg \<or>
       (commit_urls st = None \<and> repository st = repository_arg) \<or>
       (truthy_repo (repository st) \<and> truthy_repo repository_arg)))"

text \<open>
  The commit-reference cell with links: \<open>link_name\<close> is the link text that line 205
  computes, \<open>commit_links\<close> the whole cell. \<open>sponsor_cell\<close> is the sponsor cell.
\<close>

definition link_name :: "string \<Rightarrow> string" where
  "link_name url = (case org_repo_link_name url of Inr name \<Rightarrow> name | Inl e \<Rightarrow> [])"

definition markdown_link :: "string \<Rightarrow> string" where
  "markdown_link u = ''['' @ link_name (py_strip u) @ ''](''  @ py_strip u @ '')''"

definition commit_links :: "string \<Rightarrow> string" where
  "commit_links urls = concat (map (\<lambda>u. markdown_link u @ '', '') (py_split '','' urls))"

definition sponsor_cell :: "ContributorStats \<Rightarrow> string" where
  "sponsor_cell c =
     (if sponsor_info c = [] then ''not sponsorable''
      else ''[Sponsor Link]('' @ sponsor_info c @ '')'')"

section \<open>Example inputs\<close>

definition alice :: ContributorStats where
  "alice = \<lparr> username = ''alice'', contribution_count = 5, new_contributor = True,
             commit_url = ''https://github.com/o1/r1/commits?author=alice'',
             organizations = [''o1'', ''o2''], sponsor_info = [] \<rparr>"

definition bob :: ContributorStats where
  "bob = \<lparr> username = ''bob'', contribution_count = 7, new_contributor = False,
           commit_url = ''https://github.com/o1/r1/commits?author=bob, https://github.com/o1/r2/commits?author=bob'',
           organizations = [], sponsor_info = ''https://github.com/sponsors/bob'' \<rparr>"

definition empty_fs :: filesystem where
  "empty_fs = \<lparr> files = Map.empty, writable = (\<lambda>path. True) \<rparr>"

definition mallory :: ContributorStats where
  "mallory = \<lparr> username = ''mallory'', contribution_count = 1, new_contributor = True,
               commit_url = ''https://github.com/o1/r1/commits?author=m, https://example.org/o1/r2/commits?author=m'',
               organizations = [''o1''], sponsor_info = [] \<rparr>"

definition carol :: ContributorStats where
  "carol = \<lparr> username = ''carol'', contribution_count = 3, new_contributor = False,
             commit_url = ''https://github.com/o1/commits-x/commits?author=carol'',
             organizations = [], sponsor_info = [] \<rparr>"

definition dave :: ContributorStats where
  "dave = \<lparr> username = ''dave'', contribution_count = 2, new_contributor = False,
            commit_url = ''https://github.com/commits-org/r1/commits?author=dave'',
            organizations = [], sponsor_info = [] \<rparr>"

definition stale_fs :: filesystem where
  "stale_fs = \<lparr> files = [''out.md'' \<mapsto> ''old text''], writable = (\<lambda>path. True) \<rparr>"

definition example_tables :: tables where
  "example_tables =
     [(''o2'',
       ''| Username | All Time Contribution Count | New Contributor | Sponsor URL | Commits between 2024-01-01 and 2024-02-01 |'' @ nl
       @ ''| --- | --- | --- | --- | --- |'' @ nl
       @ ''| alice | 5 | True | not sponsorable | [o1/r1](https://github.com/o1/r1/commits?author=alice),  |'' @ nl),
      (''Independent'',
       ''| Username | All Time Contribution Count | New Contributor | Sponsor URL | Commits between 2024-01-01 and 2024-02-01 |'' @ nl
       @ ''| --- | --- | --- | --- | --- |'' @ nl
       @ ''| bob | 7 | False | [Sponsor Link](https://github.com/sponsors/bob) | [o1/r1](https://github.com/o1/r1/commits?author=bob), [o1/r2](https://github.com/o1/r2/commits?author=bob),  |'' @ nl)]"

definition example_document :: string where
  "example_document =
     ''# Contributors'' @ nl @ nl
     @ ''- Repository: o1/r1'' @ nl @ nl
     @ ''| Total Contributors | Total Contributions |'' @ nl
     @ ''| --- | --- |'' @ nl
     @ ''| 2 | 12 |'' @ nl @ nl
     @ ''## [o1](https://github.com/o1)'' @ nl
     @ ''| Username | All Time Contribution Count | All Commits |'' @ nl
     @ ''| --- | --- | --- |'' @ nl
     @ ''| @alice | 5 | https://github.com/o1/r1/commits?author=alice |'' @ nl
     @ ''## Independent '' @ nl
     @ ''| Username | All Time Contribution Count | All Commits |'' @ nl
     @ ''| --- | --- | --- |'' @ nl
     @ ''| @bob | 7 | https://github.com/o1/r1/commits?author=bob, https://github.com/o1/r2/commits?author=bob |'' @ nl
     @ footer"

section \<open>Properties of the table builder\<close>

subsection \<open>The loop and the rows\<close>

lemma org_loop_group:
  "org_loop d row shown orgs = (d', added) \<Longrightarrow>
   (if added then d' else dict_append d' ''Independent'' row)
   = dict_append d (case find (shown_org shown) orgs of Some org \<Rightarrow> org | None \<Rightarrow> ''Independent'') row"
  by (induction orgs) (auto simp: shown_org_def split: if_splits)

lemma truthy_repo_normalize:
  "truthy_repo rp \<Longrightarrow> normalize_repo rp \<noteq> []"
  by (cases rp) auto

lemma loop_body_step:
  assumes "loop_inv organization rp st"
  shows "loop_body columns organization lp shown st c =
     (case commit_cell organization rp c of
        Inl e \<Rightarrow> Inl e
      | Inr cell \<Rightarrow>
          Inr \<lparr> total_contributions = total_contributions st + contribution_count c,
                repository = RList (normalize_repo rp),
                commit_urls = Some cell,
                organization_contributors =
                  dict_append (organization_contributors st) (group_of shown c)
                    (row_text columns lp c cell) \<rparr>)"
proof -
  have n: "normalize_repo (repository st) = normalize_repo rp"
    using assms by (simp add: loop_inv_def)
  show ?thesis
  proof (cases "link_mode organization rp")
    case True
    then show ?thesis
      using n
      by (auto simp: loop_body_def commit_cell_def link_mode_def Let_def group_of_def row_text_def
            split: sum.splits prod.splits dest: org_loop_group)
  next
    case False
    then have d: "(commit_urls st = None \<and> repository st = rp) \<or>
       (truthy_repo (repository st) \<and> truthy_repo rp)"
      using assms by (simp add: loop_inv_def)
    with False show ?thesis
      using n
      by (auto simp: loop_body_def commit_cell_def link_mode_def Let_def group_of_def row_text_def
            split: sum.splits prod.splits dest: org_loop_group)
  qed
qed

lemma loop_inv_step:
  assumes "loop_inv organization rp st"
    and "commit_cell organization rp c = Inr cell"
  shows "loop_inv organization rp
           \<lparr> total_contributions = t, repository = RList (normalize_repo rp),
             commit_urls = Some cell, organization_contributors = d \<rparr>"
  using assms truthy_repo_normalize [of rp]
  by (auto simp: loop_inv_def commit_cell_def split: if_splits)

lemma contributor_loop_rows:
  assumes "loop_inv organization rp st"
  shows "contributor_loop columns organization lp shown st cs =
     (case commit_cells organization rp cs of
        Inl e \<Rightarrow> Inl e
      | Inr cells \<Rightarrow>
          Inr \<lparr> total_contributions = total_contributions st + sum_list (map contribution_count cs),
                repository = (if cs = [] then repository st else RList (normalize_repo rp)),
                commit_urls = (if cs = [] then commit_urls st else Some (last cells)),
                organization_contributors =
                  group_rows (organization_contributors st)
                    (keyed_rows columns lp shown cs cells) \<rparr>)"
  using assms
proof (induction cs arbitrary: st)
  case Nil
  then show ?case by (simp add: keyed_rows_def)
next
  case (Cons c cs)
  show ?case
  proof (cases "commit_cell organization rp c")
    case (Inl e)
    then show ?thesis using loop_body_step [OF Cons.prems] by simp
  next
    case (Inr cell)
    let ?st = "\<lparr> total_contributions = total_contributions st + contribution_count c,
                repository = RList (normalize_repo rp),
                commit_urls = Some cell,
                organization_contributors =
                  dict_append (organization_contributors st) (group_of shown c)
                    (row_text columns lp c cell) \<rparr>"
    have b: "loop_body columns organization lp shown st c = Inr ?st"
      using loop_body_step [OF Cons.prems] Inr by simp
    have i: "loop_inv organization rp ?st"
      by (rule loop_inv_step [OF Cons.prems Inr])
    have len: "\<And>cells. commit_cells organization rp cs = Inr cells \<Longrightarrow> cs \<noteq> [] \<Longrightarrow> cells \<noteq> []"
      by (cases cs) (auto split: sum.splits)
    show ?thesis
      using Cons.IH [OF i] b Inr len
      by (auto simp: keyed_rows_def split: sum.splits)
  qed
qed

lemma get_contributor_table_rows:
  "get_contributor_table cs sd ed organization rp sp lp shown =
     (case commit_cells organization rp cs of
        Inl e \<Rightarrow> Inl e
      | Inr cells \<Rightarrow>
          Inr (render_tables (table_headers (table_columns sd ed sp))
                 (group_rows [] (keyed_rows (table_columns sd ed sp) lp shown cs cells)),
               sum_list (map contribution_count cs)))"
proof -
  have "loop_inv organization rp \<lparr> total_contributions = 0, repository = rp,
          commit_urls = None, organization_contributors = [] \<rparr>"
    by (simp add: loop_inv_def)
  from contributor_loop_rows [OF this] show ?thesis
    by (simp add: get_contributor_table_def render_tables_def Let_def split: sum.splits)
qed

lemma example_run:
  "get_contributor_table [alice, bob] (Some ''2024-01-01'') (Some ''2024-02-01'') (Some ''o1'')
     (RScalar None) ''true'' ''false'' [''o2'']
   = Inr (example_tables, 12)"
  by code_simp



subsection \<open>The missing assignment\<close>

text \<open>
  C10. With neither an organization nor a repository and at least one contributor, the
  first row reads \<open>commit_urls\<close> before any assignment: the call fails with
  \<open>UnboundLocalError\<close>, so the raw \<open>commit_url\<close> is never printed in this configuration.
\<close>

theorem unbound_commit_urls:
  "\<not> truthy organization \<Longrightarrow> \<not> truthy_repo rp \<Longrightarrow>
   get_contributor_table (c # cs) sd ed organization rp sp lp shown = Inl UnboundLocalError"
proof -
  assume o: "\<not> truthy organization" and r: "\<not> truthy_repo rp"
  from r have "length (normalize_repo rp) \<le> 1" by (cases rp) auto
  with o r have "commit_cell organization rp c = Inl UnboundLocalError"
    by (simp add: commit_cell_def link_mode_def)
  then show ?thesis by (simp add: get_contributor_table_rows)
qed

theorem unbound_commit_urls_witness:
  "\<not> truthy None \<and> \<not> truthy_repo (RScalar None) \<and>
   get_contributor_table [alice, bob] None None None (RScalar None) ''false'' ''true'' [''all'']
     = Inl UnboundLocalError"
  using unbound_commit_urls [of None "RScalar None" alice "[bob]" None None "''false''" "''true''" "[''all'']"]
  by simp

subsection \<open>Splitting and stripping\<close>

lemma py_split_acc_none:
  "\<not> sublist sep s \<Longrightarrow> py_split_acc sep cur s = [cur @ s]"
proof (induction s arbitrary: cur)
  case Nil
  then show ?case by simp
next
  case (Cons x s)
  from Cons.prems have np: "\<not> prefix sep (x # s)"
    by (simp add: sublist_Cons_right)
  from Cons.prems have "\<not> sublist sep s"
    by (simp add: sublist_Cons_right)
  from Cons.IH [OF this, of "cur @ [x]"] np show ?case by simp
qed

lemma prefix_overlap_false:
  assumes "prefix (c # rest) (a @ (c # rest) @ b)" and "a \<noteq> []"
    and "length a < length (c # rest)" and "c \<notin> set rest"
  shows False
proof -
  from assms(1) obtain zs where e: "a @ (c # rest) @ b = (c # rest) @ zs"
    by (auto simp: prefix_def)
  have "(a @ (c # rest) @ b) ! length a = c"
    by (simp add: nth_append)
  moreover have "((c # rest) @ zs) ! length a = rest ! (length a - 1)"
    using assms(2,3) by (cases a) (auto simp: nth_append)
  moreover have "rest ! (length a - 1) \<in> set rest"
    using assms(2,3) by (cases a) auto
  ultimately show False using e assms(4) by metis
qed

lemma py_split_acc_first:
  assumes "c \<notin> set rest" and "\<not> sublist (c # rest) a"
  shows "py_split_acc (c # rest) cur (a @ (c # rest) @ b) = (cur @ a) # py_split_acc (c # rest) [] b"
  using assms(2)
proof (induction a arbitrary: cur)
  case Nil
  then show ?case by simp
next
  case (Cons x a)
  have np: "\<not> prefix (c # rest) ((x # a) @ (c # rest) @ b)"
  proof
    assume p: "prefix (c # rest) ((x # a) @ (c # rest) @ b)"
    show False
    proof (cases "length (x # a) < length (c # rest)")
      case True
      from prefix_overlap_false [OF p _ True assms(1)] show False by simp
    next
      case False
      then have "length (c # rest) \<le> length (x # a)" by simp
      moreover have "prefix (x # a) ((x # a) @ (c # rest) @ b)"
        by (rule prefixI) simp
      ultimately have "prefix (c # rest) (x # a)"
        using p by (rule_tac prefix_length_prefix) 
      then show False using Cons.prems by (simp add: sublist_Cons_right)
    qed
  qed
  from Cons.prems have "\<not> sublist (c # rest) a"
    by (simp add: sublist_Cons_right)
  from Cons.IH [OF this, of "cur @ [x]"] np show ?case by simp
qed

lemma py_split_acc_head:
  "py_split_acc sep cur s = x # xs \<Longrightarrow> \<exists>p. prefix p s \<and> x = cur @ p"
proof (induction sep cur s rule: py_split_acc.induct)
  case (1 sep cur)
  then show ?case by simp
next
  case (2 sep cur c cs)
  show ?case
  proof (cases "sep \<noteq> [] \<and> prefix sep (c # cs)")
    case True
    with "2.prems" have "x = cur" by simp
    then show ?thesis by (intro exI [of _ "[]"]) simp
  next
    case False
    with "2.prems" have "py_split_acc sep (cur @ [c]) cs = x # xs" by auto
    from "2.IH"(2) [OF False this] obtain p where "prefix p cs" "x = (cur @ [c]) @ p" by blast
    then show ?thesis by (intro exI [of _ "c # p"]) simp
  qed
qed

lemma py_split_acc_two:
  "py_split_acc sep cur s = x # y # ys \<Longrightarrow> sublist sep s"
proof (induction sep cur s arbitrary: x rule: py_split_acc.induct)
  case (1 sep cur)
  then show ?case by simp
next
  case (2 sep cur c cs)
  show ?case
  proof (cases "sep \<noteq> [] \<and> prefix sep (c # cs)")
    case True
    then show ?thesis by (simp add: sublist_Cons_right)
  next
    case False
    with "2.prems" have "py_split_acc sep (cur @ [c]) cs = x # y # ys" by auto
    from "2.IH"(2) [OF False this] show ?thesis
      by (simp add: sublist_Cons_right)
  qed
qed

lemma py_strip_sublist: "sublist (py_strip s) s"
proof -
  have "suffix (dropWhile py_isspace s) s"
    by (rule suffix_dropWhile)
  moreover have "prefix (py_strip s) (dropWhile py_isspace s)"
    unfolding py_strip_def
    by (metis suffix_dropWhile suffix_to_prefix rev_rev_ident)
  ultimately show ?thesis
    using prefix_imp_sublist [of "py_strip s" "dropWhile py_isspace s"]
      suffix_imp_sublist [of "dropWhile py_isspace s" s]
      sublist_order.order_trans [of "py_strip s" "dropWhile py_isspace s" s]
    by simp
qed

lemma org_repo_link_name_error:
  assumes "\<not> sublist ''github.com/'' url"
  shows "org_repo_link_name url = Inl IndexError"
proof (cases "py_split ''/commits'' url")
  case Nil
  then show ?thesis by (simp add: org_repo_link_name_def)
next
  case (Cons front rest)
  then have "prefix front url"
    using py_split_acc_head [of "''/commits''" "[]" url front rest] by (simp add: py_split_def)
  with assms have nf: "\<not> sublist ''github.com/'' front"
    using prefix_imp_sublist [of front url]
      sublist_order.order_trans [of "''github.com/''" front url]
    by auto
  have "py_split ''github.com/'' front = [front]"
    using py_split_acc_none [OF nf, of "[]"] by (simp add: py_split_def)
  with Cons show ?thesis by (simp add: org_repo_link_name_def)
qed

lemma org_repo_link_name_segment:
  assumes "\<not> sublist ''/commits'' (pre @ ''github.com/'' @ seg)"
    and "\<not> sublist ''github.com/'' pre" and "\<not> sublist ''github.com/'' seg"
  shows "org_repo_link_name (pre @ ''github.com/'' @ seg @ ''/commits'' @ post) = Inr seg"
proof -
  have 1: "py_split ''/commits'' ((pre @ ''github.com/'' @ seg) @ ''/commits'' @ post)
        = (pre @ ''github.com/'' @ seg) # py_split_acc ''/commits'' [] post"
    unfolding py_split_def
    using py_split_acc_first [of "CHR ''/''" "''commits''" "pre @ ''github.com/'' @ seg" "[]" post] assms(1)
    by simp
  have 2: "py_split ''github.com/'' (pre @ ''github.com/'' @ seg) = [pre, seg]"
    unfolding py_split_def
    using py_split_acc_first [of "CHR ''g''" "''ithub.com/''" pre "[]" seg] assms(2)
      py_split_acc_none [OF assms(3), of "[]"]
    by simp
  from 1 2 show ?thesis by (simp add: org_repo_link_name_def)
qed

subsection \<open>Groups\<close>

lemma dict_append_keys:
  "map fst (dict_append d k v) = (if k \<in> set (map fst d) then map fst d else map fst d @ [k])"
  by (induction d) force+

lemma dict_append_lookup:
  "map_of (dict_append d k v) g =
     (if g = k then Some ((case map_of d k of None \<Rightarrow> [] | Some vs \<Rightarrow> vs) @ [v])
      else map_of d g)"
  by (induction d) auto

lemma group_rows_keys_set:
  "set (map fst (group_rows d kvs)) = set (map fst d) \<union> set (map fst kvs)"
  by (induction d kvs rule: group_rows.induct) (auto simp: dict_append_keys)

lemma group_rows_distinct:
  "distinct (map fst d) \<Longrightarrow> distinct (map fst (group_rows d kvs))"
  by (induction d kvs rule: group_rows.induct) (auto simp: dict_append_keys)

lemma group_rows_lookup:
  "map_of (group_rows d kvs) g =
     (if g \<in> set (map fst kvs)
      then Some ((case map_of d g of None \<Rightarrow> [] | Some vs \<Rightarrow> vs)
                 @ map snd (filter (\<lambda>kv. fst kv = g) kvs))
      else map_of d g)"
proof (induction d kvs rule: group_rows.induct)
  case (1 d)
  then show ?case by simp
next
  case (2 d k v kvs)
  then show ?case
    by (auto simp: dict_append_lookup filter_empty_conv image_iff split: option.splits)
qed

lemma render_tables_keys: "map fst (render_tables h d) = map fst d"
  by (induction d) (auto simp: render_tables_def)

lemma render_tables_lookup:
  "map_of (render_tables h d) g = map_option (\<lambda>rows. h @ concat rows) (map_of d g)"
  by (induction d) (auto simp: render_tables_def)

lemma commit_cells_length:
  "commit_cells organization rp cs = Inr cells \<Longrightarrow> length cells = length cs"
  by (induction cs arbitrary: cells) (auto split: sum.splits)

lemma commit_cells_nth:
  "commit_cells organization rp cs = Inr cells \<Longrightarrow> i < length cs \<Longrightarrow>
   commit_cell organization rp (cs ! i) = Inr (cells ! i)"
proof (induction cs arbitrary: cells i)
  case Nil
  then show ?case by simp
next
  case (Cons c cs)
  then show ?case by (cases i) (auto split: sum.splits)
qed

lemma keyed_rows_keys:
  "length cells = length cs \<Longrightarrow>
   map fst (keyed_rows columns lp shown cs cells) = map (group_of shown) cs"
  by (induction cs cells rule: list_induct2') (auto simp: keyed_rows_def)

lemma keyed_rows_filter:
  "map snd (filter (\<lambda>kv. fst kv = g) (keyed_rows columns lp shown cs cells)) =
   map (\<lambda>(c, cell). row_text columns lp c cell)
     (filter (\<lambda>(c, cell). group_of shown c = g) (zip cs cells))"
  by (induction cs cells rule: list_induct2') (auto simp: keyed_rows_def)

text \<open>
  C2. When the table builder returns, the groups are exactly the values of \<open>group_of\<close>
  on the contributors, each group once, and the table of a group is the header block
  followed by the rows of the contributors of that group and of no other, in input
  order. \<open>group_of\<close> is the first organization of the contributor when the allow-list
  holds \<open>all\<close>, otherwise the first organization that is in the allow-list, and
  \<open>Independent\<close> when there is none.
\<close>

theorem one_group_per_contributor:
  assumes "get_contributor_table cs sd ed organization rp sp lp shown = Inr (tbl, t)"
  shows "\<exists>cells. commit_cells organization rp cs = Inr cells \<and> length cells = length cs \<and>
     distinct (map fst tbl) \<and>
     set (map fst tbl) = group_of shown ` set cs \<and>
     (\<forall>g. map_of tbl g =
        (if g \<in> group_of shown ` set cs
         then Some (table_headers (table_columns sd ed sp)
                @ concat (map (\<lambda>(c, cell). row_text (table_columns sd ed sp) lp c cell)
                    (filter (\<lambda>(c, cell). group_of shown c = g) (zip cs cells))))
         else None)) \<and>
     (\<forall>c. group_of shown c =
        (if ''all'' \<in> set shown
         then (case organizations c of [] \<Rightarrow> ''Independent'' | org # others \<Rightarrow> org)
         else (case find (\<lambda>org. org \<in> set shown) (organizations c) of
                 Some org \<Rightarrow> org
               | None \<Rightarrow> ''Independent'')))"
proof -
  from assms obtain cells where
    c: "commit_cells organization rp cs = Inr cells" and
    tbl: "tbl = render_tables (table_headers (table_columns sd ed sp))
            (group_rows [] (keyed_rows (table_columns sd ed sp) lp shown cs cells))"
    by (auto simp: get_contributor_table_rows split: sum.splits)
  have len: "length cells = length cs"
    by (rule commit_cells_length [OF c])
  have keys: "map fst (keyed_rows (table_columns sd ed sp) lp shown cs cells) = map (group_of shown) cs"
    by (rule keyed_rows_keys [OF len])
  have d: "distinct (map fst tbl)"
    unfolding tbl render_tables_keys by (rule group_rows_distinct) simp
  have s: "set (map fst tbl) = group_of shown ` set cs"
    unfolding tbl render_tables_keys group_rows_keys_set keys by simp
  have l: "\<forall>g. map_of tbl g =
        (if g \<in> group_of shown ` set cs
         then Some (table_headers (table_columns sd ed sp)
                @ concat (map (\<lambda>(c, cell). row_text (table_columns sd ed sp) lp c cell)
                    (filter (\<lambda>(c, cell). group_of shown c = g) (zip cs cells))))
         else None)"
    unfolding tbl render_tables_lookup group_rows_lookup keys keyed_rows_filter by simp
  have g: "\<forall>c. group_of shown c =
        (if ''all'' \<in> set shown
         then (case organizations c of [] \<Rightarrow> ''Independent'' | org # others \<Rightarrow> org)
         else (case find (\<lambda>org. org \<in> set shown) (organizations c) of
                 Some org \<Rightarrow> org
               | None \<Rightarrow> ''Independent''))"
  proof
    fix c show "group_of shown c =
        (if ''all'' \<in> set shown
         then (case organizations c of [] \<Rightarrow> ''Independent'' | org # others \<Rightarrow> org)
         else (case find (\<lambda>org. org \<in> set shown) (organizations c) of
                 Some org \<Rightarrow> org
               | None \<Rightarrow> ''Independent''))"
    proof (cases "''all'' \<in> set shown")
      case True
      then have "shown_org shown = (\<lambda>org. True)"
        by (simp add: shown_org_def fun_eq_iff)
      with True show ?thesis
        by (cases "organizations c") (simp_all add: group_of_def)
    next
      case False
      then have "shown_org shown = (\<lambda>org. org \<in> set shown)"
        by (simp add: shown_org_def fun_eq_iff)
      with False show ?thesis
        by (simp add: group_of_def)
    qed
  qed
  from c len d s l g show ?thesis by blast
qed

theorem one_group_per_contributor_witness:
  "get_contributor_table [alice, bob] (Some ''2024-01-01'') (Some ''2024-02-01'') (Some ''o1'')
     (RScalar None) ''true'' ''false'' [''o2'']
   = Inr (example_tables, 12) \<and>
   (\<exists>cells. commit_cells (Some ''o1'') (RScalar None) [alice, bob] = Inr cells \<and>
     length cells = length [alice, bob] \<and>
     distinct (map fst example_tables) \<and>
     set (map fst example_tables) = group_of [''o2''] ` set [alice, bob] \<and>
     (\<forall>g. map_of example_tables g =
        (if g \<in> group_of [''o2''] ` set [alice, bob]
         then Some (table_headers (table_columns (Some ''2024-01-01'') (Some ''2024-02-01'') ''true'')
                @ concat (map (\<lambda>(c, cell). row_text (table_columns (Some ''2024-01-01'') (Some ''2024-02-01'') ''true'') ''false'' c cell)
                    (filter (\<lambda>(c, cell). group_of [''o2''] c = g) (zip [alice, bob] cells))))
         else None)) \<and>
     (\<forall>c. group_of [''o2''] c =
        (if ''all'' \<in> set [''o2'']
         then (case organizations c of [] \<Rightarrow> ''Independent'' | org # others \<Rightarrow> org)
         else (case find (\<lambda>org. org \<in> set [''o2'']) (organizations c) of
                 Some org \<Rightarrow> org
               | None \<Rightarrow> ''Independent''))))"
  using example_run one_group_per_contributor [OF example_run] by (rule conjI)

subsection \<open>Commit links\<close>

lemma link_loop_links:
  "link_loop acc us = Inr r \<Longrightarrow>
     r = acc @ concat (map (\<lambda>u. markdown_link u @ '', '') us) \<and>
     (\<forall>u \<in> set us. org_repo_link_name (py_strip u) = Inr (link_name (py_strip u)))"
proof (induction us arbitrary: acc)
  case Nil
  then show ?case by simp
next
  case (Cons u us)
  from Cons.prems obtain name where
    n: "org_repo_link_name (py_strip u) = Inr name" and
    l: "link_loop (acc @ (''['' @ name @ ''](''  @ py_strip u @ '')'') @ '', '') us = Inr r"
    by (auto simp: Let_def split: sum.splits)
  from n have ln: "link_name (py_strip u) = name" by (simp add: link_name_def)
  from Cons.IH [OF l] n ln show ?case by (simp add: markdown_link_def)
qed

lemma link_loop_error:
  "link_loop acc us = Inl e \<Longrightarrow> e = IndexError"
proof (induction us arbitrary: acc)
  case Nil
  then show ?case by simp
next
  case (Cons u us)
  show ?case
  proof (cases "org_repo_link_name (py_strip u)")
    case (Inl e')
    then have "e' = IndexError"
      by (auto simp: org_repo_link_name_def split: list.splits)
    with Inl Cons.prems show ?thesis by simp
  next
    case (Inr name)
    with Cons.prems Cons.IH show ?thesis by (auto simp: Let_def)
  qed
qed

lemma link_loop_bad_url:
  "u \<in> set us \<Longrightarrow> \<not> sublist ''github.com/'' u \<Longrightarrow> link_loop acc us = Inl IndexError"
proof (induction us arbitrary: acc)
  case Nil
  then show ?case by simp
next
  case (Cons v us)
  show ?case
  proof (cases "org_repo_link_name (py_strip v)")
    case (Inl e')
    then have "e' = IndexError"
      by (auto simp: org_repo_link_name_def split: list.splits)
    with Inl show ?thesis by simp
  next
    case (Inr name)
    have "u \<noteq> v"
    proof
      assume "u = v"
      with Cons.prems(2) have "\<not> sublist ''github.com/'' (py_strip v)"
        using py_strip_sublist [of v] sublist_order.order_trans [of "''github.com/''" "py_strip v" v]
        by auto
      from org_repo_link_name_error [OF this] Inr show False by simp
    qed
    with Cons.prems have "u \<in> set us" by simp
    from Cons.IH [OF this Cons.prems(2)] Inr show ?thesis by (simp add: Let_def)
  qed
qed

lemma commit_cells_link_error:
  "link_mode organization rp \<Longrightarrow> commit_cells organization rp cs = Inl e \<Longrightarrow> e = IndexError"
proof (induction cs)
  case Nil
  then show ?case by simp
next
  case (Cons c cs)
  then show ?case
    by (auto simp: commit_cell_def split: sum.splits dest: link_loop_error)
qed

lemma commit_cells_bad:
  "c \<in> set cs \<Longrightarrow> commit_cell organization rp c = Inl e \<Longrightarrow>
   \<exists>e'. commit_cells organization rp cs = Inl e'"
proof (induction cs)
  case Nil
  then show ?case by simp
next
  case (Cons d cs)
  then show ?case by (auto split: sum.splits)
qed

text \<open>
  C8. With the links requested (an organization, or more than one repository), a
  contributor one of whose comma-separated URLs has no \<open>github.com/\<close> makes the table
  builder fail with \<open>IndexError\<close>.
\<close>

theorem malformed_commit_url_raises:
  assumes "truthy organization \<or> length (normalize_repo rp) > 1"
    and "c \<in> set cs"
    and "u \<in> set (py_split '','' (commit_url c))"
    and "\<not> sublist ''github.com/'' u"
  shows "get_contributor_table cs sd ed organization rp sp lp shown = Inl IndexError"
proof -
  from assms(1) have m: "link_mode organization rp" by (simp add: link_mode_def)
  with link_loop_bad_url [OF assms(3,4)]
  have "commit_cell organization rp c = Inl IndexError" by (simp add: commit_cell_def)
  from commit_cells_bad [OF assms(2) this] obtain e where
    e: "commit_cells organization rp cs = Inl e" by blast
  from commit_cells_link_error [OF m e] e show ?thesis
    by (simp add: get_contributor_table_rows)
qed

theorem malformed_commit_url_raises_witness:
  "(truthy (Some ''o1'') \<or> length (normalize_repo (RScalar None)) > 1) \<and>
   mallory \<in> set [alice, mallory, bob] \<and>
   '' https://example.org/o1/r2/commits?author=m'' \<in> set (py_split '','' (commit_url mallory)) \<and>
   \<not> sublist ''github.com/'' '' https://example.org/o1/r2/commits?author=m'' \<and>
   get_contributor_table [alice, mallory, bob] None None (Some ''o1'') (RScalar None)
     ''false'' ''true'' [''all''] = Inl IndexError"
proof -
  have 1: "truthy (Some ''o1'') \<or> length (normalize_repo (RScalar None)) > 1" by simp
  have 2: "mallory \<in> set [alice, mallory, bob]" by simp
  have 3: "'' https://example.org/o1/r2/commits?author=m'' \<in> set (py_split '','' (commit_url mallory))"
    by code_simp
  have 4: "\<not> sublist ''github.com/'' '' https://example.org/o1/r2/commits?author=m''"
    by code_simp
  from 1 2 3 4 malformed_commit_url_raises [OF 1 2 3 4] show ?thesis by blast
qed

section \<open>Properties of the document\<close>

subsection \<open>The sections of the groups\<close>

lemma sections_loop_items:
  assumes "distinct (map fst table)"
  shows "set sub \<subseteq> set table \<Longrightarrow>
     sections_loop table (map fst sub) = Inr (concat (map (\<lambda>(org, t). org_title org @ t) sub))"
proof (induction sub)
  case Nil
  then show ?case by simp
next
  case (Cons kv sub)
  obtain k v where kv: "kv = (k, v)" by (cases kv)
  with Cons.prems have "(k, v) \<in> set table" by simp
  with assms have "map_of table k = Some v" by simp
  with Cons kv show ?case by (simp add: dict_get_def)
qed

lemma remove1_filter_keys:
  "distinct (map fst table) \<Longrightarrow>
   remove1 k (map fst table) = map fst (filter (\<lambda>(org, t). org \<noteq> k) table)"
proof (induction table)
  case Nil
  then show ?case by simp
next
  case (Cons kv table)
  have "k \<notin> fst ` set table \<Longrightarrow> filter (\<lambda>(org, t). org \<noteq> k) table = table"
    by (force simp: filter_id_conv)
  moreover have "\<And>b. (k, b) \<in> set table \<Longrightarrow> k \<in> fst ` set table"
    by force
  ultimately show ?case using Cons by (cases kv) auto
qed

lemma filter_key_single:
  "distinct (map fst table) \<Longrightarrow> k \<in> set (map fst table) \<Longrightarrow>
   map fst (filter (\<lambda>(org, t). org = k) table) = [k]"
proof (induction table)
  case Nil
  then show ?case by simp
next
  case (Cons kv table)
  have "k \<notin> fst ` set table \<Longrightarrow> filter (\<lambda>(org, t). org = k) table = []"
    by (force simp: filter_empty_conv)
  moreover have "\<And>b. (k, b) \<in> set table \<Longrightarrow> k \<in> fst ` set table"
    by force
  ultimately show ?case using Cons by (cases kv) auto
qed

lemma filter_key_none:
  "k \<notin> set (map fst table) \<Longrightarrow>
   filter (\<lambda>(org, t). org = k) table = [] \<and> filter (\<lambda>(org, t). org \<noteq> k) table = table"
  by (force simp: filter_empty_conv filter_id_conv)

lemma org_sections_order:
  assumes d: "distinct (map fst table)"
    and n: "\<not> (length table = 1 \<and> ''Independent'' \<in> set (map fst table))"
  shows "org_sections table =
     Inr (concat (map (\<lambda>(org, t). org_title org @ t)
            (filter (\<lambda>(org, t). org \<noteq> ''Independent'') table
             @ filter (\<lambda>(org, t). org = ''Independent'') table)))"
proof -
  let ?sub = "filter (\<lambda>(org, t). org \<noteq> ''Independent'') table
             @ filter (\<lambda>(org, t). org = ''Independent'') table"
  have sub: "set ?sub \<subseteq> set table" by auto
  have "(if ''Independent'' \<in> set (map fst table)
         then remove1 ''Independent'' (map fst table) @ [''Independent'']
         else map fst table) = map fst ?sub"
  proof (cases "''Independent'' \<in> set (map fst table)")
    case True
    with remove1_filter_keys [OF d, of "''Independent''"] filter_key_single [OF d True]
    show ?thesis by simp
  next
    case False
    with filter_key_none [OF False] show ?thesis by simp
  qed
  with n sections_loop_items [OF d sub] show ?thesis
    by (auto simp: org_sections_def Let_def)
qed

text \<open>
  C5, as amended. For a dictionary of tables (its keys are distinct): one group that
  is \<open>Independent\<close> is written as its table alone; otherwise every other group is
  written, in the dictionary's order, as a heading linked to \<open>https://github.com/\<close>
  followed by the group's name, then its table, and \<open>Independent\<close> comes last under the
  heading line \<open>## Independent\<close> followed by one space.
\<close>

theorem independent_section_last:
  assumes "distinct (map fst table)"
  shows "org_sections table =
     (if length table = 1 \<and> ''Independent'' \<in> set (map fst table)
      then Inr (snd (hd table))
      else Inr (concat (map (\<lambda>(org, t). ''## ['' @ org @ ''](https://github.com/'' @ org @ '')'' @ nl @ t)
                        (filter (\<lambda>(org, t). org \<noteq> ''Independent'') table))
                @ concat (map (\<lambda>(org, t). ''## Independent '' @ nl @ t)
                        (filter (\<lambda>(org, t). org = ''Independent'') table))))"
proof (cases "length table = 1 \<and> ''Independent'' \<in> set (map fst table)")
  case True
  then obtain t where "table = [(''Independent'', t)]"
    by (cases table) auto
  then show ?thesis by (simp add: org_sections_def dict_get_def)
next
  case False
  have 1: "map (\<lambda>(org, t). org_title org @ t) (filter (\<lambda>(org, t). org \<noteq> ''Independent'') table)
      = map (\<lambda>(org, t). ''## ['' @ org @ ''](https://github.com/'' @ org @ '')'' @ nl @ t)
          (filter (\<lambda>(org, t). org \<noteq> ''Independent'') table)"
    by (rule map_cong) (auto simp: org_title_def)
  have 2: "map (\<lambda>(org, t). org_title org @ t) (filter (\<lambda>(org, t). org = ''Independent'') table)
      = map (\<lambda>(org, t). ''## Independent '' @ nl @ t)
          (filter (\<lambda>(org, t). org = ''Independent'') table)"
    by (rule map_cong) (auto simp: org_title_def)
  have "org_sections table =
     Inr (concat (map (\<lambda>(org, t). ''## ['' @ org @ ''](https://github.com/'' @ org @ '')'' @ nl @ t)
                        (filter (\<lambda>(org, t). org \<noteq> ''Independent'') table))
                @ concat (map (\<lambda>(org, t). ''## Independent '' @ nl @ t)
                        (filter (\<lambda>(org, t). org = ''Independent'') table)))"
    unfolding org_sections_order [OF assms False] map_append concat_append 1 2 by (rule refl)
  with False show ?thesis by (simp only: if_False)
qed

text \<open>
  C5 as stated asks for the heading line \<open>## Independent\<close>; the line written ends with a
  space.
\<close>

theorem independent_heading_counterexample:
  "org_sections [(''o1'', ''A''), (''Independent'', ''B'')]
     = Inr (''## [o1](https://github.com/o1)'' @ nl @ ''A'' @ ''## Independent '' @ nl @ ''B'')
   \<and> org_sections [(''o1'', ''A''), (''Independent'', ''B'')]
     \<noteq> Inr (''## [o1](https://github.com/o1)'' @ nl @ ''A'' @ ''## Independent'' @ nl @ ''B'')"
  by code_simp

theorem independent_section_last_witness:
  "distinct (map fst [(''o2'', ''A''), (''Independent'', ''B''), (''o1'', ''C'')]) \<and>
   org_sections [(''o2'', ''A''), (''Independent'', ''B''), (''o1'', ''C'')]
     = Inr (''## [o2](https://github.com/o2)'' @ nl @ ''A''
            @ ''## [o1](https://github.com/o1)'' @ nl @ ''C''
            @ ''## Independent '' @ nl @ ''B'')"
  using independent_section_last [of "[(''o2'', ''A''), (''Independent'', ''B''), (''o1'', ''C'')]"]
  by simp

section \<open>The sponsor cell\<close>

lemma columns_new_contributor:
  "''New Contributor'' \<in> set (table_columns sd ed sp) \<longleftrightarrow> truthy sd \<and> truthy ed"
  by (auto simp: table_columns_def Let_def)

lemma columns_sponsor_url:
  "''Sponsor URL'' \<in> set (table_columns sd ed sp) \<longleftrightarrow> sp = ''true''"
  by (auto simp: table_columns_def Let_def)

text \<open>
  C7. With \<open>sponsor_info == "true"\<close> the column \<open>Sponsor URL\<close> is present, and every row
  that the table builder returns has, before the commit-reference cell, the cell
  \<open>not sponsorable\<close> for a contributor whose \<open>sponsor_info\<close> is empty and the link
  \<open>[Sponsor Link](url)\<close> to the contributor's \<open>sponsor_info\<close> otherwise.
\<close>

theorem sponsor_column_cell:
  assumes "sp = ''true''"
    and "get_contributor_table cs sd ed organization rp sp lp shown = Inr (tbl, t)"
  shows "''Sponsor URL'' \<in> set (table_columns sd ed sp) \<and>
     (\<exists>cells. length cells = length cs \<and>
        tbl = render_tables (table_headers (table_columns sd ed sp))
                (group_rows []
                   (map (\<lambda>(c, cell).
                           (group_of shown c,
                            ''| '' @ (if lp = ''false'' then [] else ''@'') @ username c
                            @ '' | '' @ str_int (contribution_count c) @ '' |''
                            @ (if truthy sd \<and> truthy ed
                               then '' '' @ str_bool (new_contributor c) @ '' |'' else [])
                            @ '' '' @ sponsor_cell c @ '' |''
                            @ '' '' @ cell @ '' |'' @ nl))
                      (zip cs cells))))"
proof -
  from assms(2) obtain cells where
    c: "commit_cells organization rp cs = Inr cells" and
    tbl: "tbl = render_tables (table_headers (table_columns sd ed sp))
            (group_rows [] (keyed_rows (table_columns sd ed sp) lp shown cs cells))"
    by (auto simp: get_contributor_table_rows split: sum.splits)
  have len: "length cells = length cs"
    by (rule commit_cells_length [OF c])
  have row: "row_text (table_columns sd ed sp) lp c cell =
        ''| '' @ (if lp = ''false'' then [] else ''@'') @ username c
        @ '' | '' @ str_int (contribution_count c) @ '' |''
        @ (if truthy sd \<and> truthy ed
           then '' '' @ str_bool (new_contributor c) @ '' |'' else [])
        @ '' '' @ sponsor_cell c @ '' |''
        @ '' '' @ cell @ '' |'' @ nl" for c cell
    using assms(1)
    by (simp add: row_text_def row_start_def Let_def columns_new_contributor
          columns_sponsor_url sponsor_cell_def)
  have "keyed_rows (table_columns sd ed sp) lp shown cs cells =
      map (\<lambda>(c, cell).
             (group_of shown c,
              ''| '' @ (if lp = ''false'' then [] else ''@'') @ username c
              @ '' | '' @ str_int (contribution_count c) @ '' |''
              @ (if truthy sd \<and> truthy ed
                 then '' '' @ str_bool (new_contributor c) @ '' |'' else [])
              @ '' '' @ sponsor_cell c @ '' |''
              @ '' '' @ cell @ '' |'' @ nl))
        (zip cs cells)"
    unfolding keyed_rows_def row by (rule refl)
  with tbl len assms(1) show ?thesis
    by (intro conjI exI [of _ cells]) (simp_all add: columns_sponsor_url)
qed

theorem sponsor_column_cell_witness:
  "''true'' = ''true'' \<and>
   get_contributor_table [alice, bob] (Some ''2024-01-01'') (Some ''2024-02-01'') (Some ''o1'')
     (RScalar None) ''true'' ''false'' [''o2'']
   = Inr (example_tables, 12) \<and>
   ''Sponsor URL'' \<in> set (table_columns (Some ''2024-01-01'') (Some ''2024-02-01'') ''true'') \<and>
   (\<exists>cells. length cells = length [alice, bob] \<and>
      example_tables =
        render_tables (table_headers (table_columns (Some ''2024-01-01'') (Some ''2024-02-01'') ''true''))
          (group_rows []
             (map (\<lambda>(c, cell).
                     (group_of [''o2''] c,
                      ''| '' @ (if ''false'' = ''false'' then [] else ''@'') @ username c
                      @ '' | '' @ str_int (contribution_count c) @ '' |''
                      @ (if truthy (Some ''2024-01-01'') \<and> truthy (Some ''2024-02-01'')
                         then '' '' @ str_bool (new_contributor c) @ '' |'' else [])
                      @ '' '' @ sponsor_cell c @ '' |''
                      @ '' '' @ cell @ '' |'' @ nl))
                (zip [alice, bob] cells)))) \<and>
   sponsor_cell alice = ''not sponsorable'' \<and>
   sponsor_cell bob = ''[Sponsor Link](https://github.com/sponsors/bob)''"
proof -
  have t: "''true'' = ''true''" by (rule refl)
  note r = sponsor_column_cell [OF t example_run]
  have a: "sponsor_cell alice = ''not sponsorable''" by code_simp
  have b: "sponsor_cell bob = ''[Sponsor Link](https://github.com/sponsors/bob)''" by code_simp
  from t example_run conjunct1 [OF r] conjunct2 [OF r] a b show ?thesis by (intro conjI)
qed

section \<open>The empty list and repeated runs\<close>

lemma str_int_0: "str_int 0 = ''0''"
  by code_simp

lemma org_sections_empty: "org_sections [] = Inr []"
  by (simp add: org_sections_def)

text \<open>
  C6, as amended. For the empty list the table builder returns no group at all and the
  total 0; the summary shows 0 contributors, 0 contributions and, with both dates, 0%
  new; the document is the title, the header lines, the summary and the footer, with
  no group heading and no table header.
\<close>

theorem empty_list_report:
  "get_contributor_table [] sd ed organization rp sp lp shown = Inr ([], 0) \<and>
   get_summary_table [] sd ed 0 =
     (if truthy sd \<and> truthy ed
      then ''| Total Contributors | Total Contributions | % New Contributors |'' @ nl
           @ ''| --- | --- | --- |'' @ nl @ ''| 0 | 0 | 0% |'' @ nl @ nl
      else ''| Total Contributors | Total Contributions |'' @ nl
           @ ''| --- | --- |'' @ nl @ ''| 0 | 0 |'' @ nl @ nl) \<and>
   write_to_markdown [] filename sd ed organization rp sp lp shown fs =
     (if writable fs filename
      then Inr (fs\<lparr> files := (files fs)(filename \<mapsto>
                  ''# Contributors'' @ nl @ nl
                  @ (if truthy sd \<and> truthy ed
                     then ''- Date range for contributor list:  '' @ fmt_opt sd
                          @ '' to '' @ fmt_opt ed @ nl
                     else [])
                  @ (if truthy organization
                     then ''- Organization: '' @ fmt_opt organization @ nl else [])
                  @ (if truthy_repo rp then ''- Repository: '' @ fmt_repo rp @ nl else [])
                  @ nl
                  @ get_summary_table [] sd ed 0
                  @ footer) \<rparr>)
      else Inl OSError)"
proof -
  have t: "get_contributor_table [] sd ed organization rp sp lp shown = Inr ([], 0)"
    by (simp add: get_contributor_table_def Let_def)
  have s: "get_summary_table [] sd ed 0 =
     (if truthy sd \<and> truthy ed
      then ''| Total Contributors | Total Contributions | % New Contributors |'' @ nl
           @ ''| --- | --- | --- |'' @ nl @ ''| 0 | 0 | 0% |'' @ nl @ nl
      else ''| Total Contributors | Total Contributions |'' @ nl
           @ ''| --- | --- |'' @ nl @ ''| 0 | 0 |'' @ nl @ nl)"
    by (simp add: get_summary_table_def new_contributors_percentage_def str_int_0)
  have w: "write_to_markdown [] filename sd ed organization rp sp lp shown fs =
     (if writable fs filename
      then Inr (fs\<lparr> files := (files fs)(filename \<mapsto>
                  ''# Contributors'' @ nl @ nl
                  @ (if truthy sd \<and> truthy ed
                     then ''- Date range for contributor list:  '' @ fmt_opt sd
                          @ '' to '' @ fmt_opt ed @ nl
                     else [])
                  @ (if truthy organization
                     then ''- Organization: '' @ fmt_opt organization @ nl else [])
                  @ (if truthy_repo rp then ''- Repository: '' @ fmt_repo rp @ nl else [])
                  @ nl
                  @ get_summary_table [] sd ed 0
                  @ footer) \<rparr>)
      else Inl OSError)"
    unfolding write_to_markdown_def t
    by (simp add: write_markdown_file_def document_text_def org_sections_empty)
  from t s w show ?thesis by (intro conjI)
qed

text \<open>
  C6 as stated has the group tables printed with their headers and no rows; for the
  empty list there is no group, and the document has no table header.
\<close>

theorem empty_list_counterexample:
  "get_contributor_table [] None None (Some ''o1'') (RScalar None) ''false'' ''true'' [''all'']
     = Inr ([], 0) \<and>
   document_text None None (Some ''o1'') (RScalar None) []
       (get_summary_table [] None None 0)
     = Inr (''# Contributors'' @ nl @ nl @ ''- Organization: o1'' @ nl @ nl
            @ ''| Total Contributors | Total Contributions |'' @ nl
            @ ''| --- | --- |'' @ nl @ ''| 0 | 0 |'' @ nl @ nl @ footer) \<and>
   \<not> sublist ''| Username |''
       (''# Contributors'' @ nl @ nl @ ''- Organization: o1'' @ nl @ nl
        @ ''| Total Contributors | Total Contributions |'' @ nl
        @ ''| --- | --- |'' @ nl @ ''| 0 | 0 |'' @ nl @ nl @ footer)"
  by code_simp

text \<open>
  C9. Two runs with the same arguments, whatever the files held before, leave the same
  text in the target file, and a run repeated on its own result changes nothing.
\<close>

theorem write_to_markdown_idempotent:
  assumes "write_to_markdown cs filename sd ed organization rp sp lp shown fs1 = Inr fs1'"
    and "write_to_markdown cs filename sd ed organization rp sp lp shown fs2 = Inr fs2'"
  shows "(\<exists>doc. files fs1' filename = Some doc \<and> files fs2' filename = Some doc) \<and>
     write_to_markdown cs filename sd ed organization rp sp lp shown fs1' = Inr fs1'"
  using assms
  by (auto simp: write_to_markdown_def write_markdown_file_def
        split: sum.splits prod.splits if_splits)

lemma example_write:
  "write_to_markdown [alice, bob] ''out.md'' None None None (RScalar (Some ''o1/r1''))
     ''false'' ''true'' [''o1''] fs
   = (if writable fs ''out.md''
      then Inr (fs\<lparr> files := (files fs)(''out.md'' \<mapsto> example_document) \<rparr>)
      else Inl OSError)"
proof -
  have d: "(case get_contributor_table [alice, bob] None None None (RScalar (Some ''o1/r1''))
              ''false'' ''true'' [''o1''] of
              Inl e \<Rightarrow> Inl e
            | Inr (table, n) \<Rightarrow>
                document_text None None None (RScalar (Some ''o1/r1'')) table
                  (get_summary_table [alice, bob] None None n))
           = Inr example_document"
    by code_simp
  then show ?thesis
    by (auto simp: write_to_markdown_def write_markdown_file_def split: sum.splits prod.splits)
qed

theorem write_to_markdown_idempotent_witness:
  "write_to_markdown [alice, bob] ''out.md'' None None None (RScalar (Some ''o1/r1''))
     ''false'' ''true'' [''o1''] empty_fs
     = Inr (empty_fs\<lparr> files := (files empty_fs)(''out.md'' \<mapsto> example_document) \<rparr>) \<and>
   write_to_markdown [alice, bob] ''out.md'' None None None (RScalar (Some ''o1/r1''))
     ''false'' ''true'' [''o1''] stale_fs
     = Inr (stale_fs\<lparr> files := (files stale_fs)(''out.md'' \<mapsto> example_document) \<rparr>) \<and>
   (\<exists>doc. files (empty_fs\<lparr> files := (files empty_fs)(''out.md'' \<mapsto> example_document) \<rparr>) ''out.md''
            = Some doc \<and>
          files (stale_fs\<lparr> files := (files stale_fs)(''out.md'' \<mapsto> example_document) \<rparr>) ''out.md''
            = Some doc) \<and>
   write_to_markdown [alice, bob] ''out.md'' None None None (RScalar (Some ''o1/r1''))
     ''false'' ''true'' [''o1'']
     (empty_fs\<lparr> files := (files empty_fs)(''out.md'' \<mapsto> example_document) \<rparr>)
     = Inr (empty_fs\<lparr> files := (files empty_fs)(''out.md'' \<mapsto> example_document) \<rparr>)"
proof -
  have 1: "write_to_markdown [alice, bob] ''out.md'' None None None (RScalar (Some ''o1/r1''))
     ''false'' ''true'' [''o1''] empty_fs
     = Inr (empty_fs\<lparr> files := (files empty_fs)(''out.md'' \<mapsto> example_document) \<rparr>)"
    by (simp add: example_write empty_fs_def)
  have 2: "write_to_markdown [alice, bob] ''out.md'' None None None (RScalar (Some ''o1/r1''))
     ''false'' ''true'' [''o1''] stale_fs
     = Inr (stale_fs\<lparr> files := (files stale_fs)(''out.md'' \<mapsto> example_document) \<rparr>)"
    by (simp add: example_write stale_fs_def)
  note r = write_to_markdown_idempotent [OF 1 2]
  from 1 2 conjunct1 [OF r] conjunct2 [OF r] show ?thesis by (intro conjI)
qed

section \<open>The percentage of new contributors\<close>

lemma round_half_even_error: "\<bar>of_int (round_half_even x) - x\<bar> \<le> 1 / 2"
proof -
  have "of_int \<lfloor>x\<rfloor> \<le> x" "x < of_int \<lfloor>x\<rfloor> + 1" by linarith+
  then show ?thesis
    by (auto simp: round_half_even_def Let_def)
qed

lemma round_half_even_nonneg: "0 \<le> x \<Longrightarrow> 0 \<le> round_half_even x"
proof -
  assume "0 \<le> x"
  then have "0 \<le> \<lfloor>x\<rfloor>" by simp
  then show ?thesis by (auto simp: round_half_even_def Let_def)
qed

lemma bin_exponent_lower:
  assumes "0 < x"
  shows "2 powi (bin_exponent x) \<le> x"
proof -
  obtain p q where pq: "quotient_of x = (p, q)" by (cases "quotient_of x")
  then have q: "0 < q" and x: "x = of_int p / of_int q"
    using quotient_of_denom_pos [OF pq] quotient_of_div [OF pq] by simp_all
  from assms q x have p: "0 < p"
    by (simp add: zero_less_divide_iff)
  let ?d = "bitlen p - bitlen q"
  show ?thesis
  proof (cases "2 powi ?d \<le> x")
    case True
    with pq show ?thesis by (simp add: bin_exponent_def)
  next
    case False
    from bitlen_bounds [OF p] have "2 ^ nat (bitlen p - 1) \<le> p" by simp
    then have "(2::rat) ^ nat (bitlen p - 1) \<le> of_int p"
      by (metis of_int_le_iff of_int_numeral of_int_power)
    moreover have "1 \<le> bitlen p"
      using p bitlen_eq_zero_iff [of p] bitlen_nonneg [of p] by linarith
    ultimately have lo: "(2::rat) powi (bitlen p - 1) \<le> of_int p"
      by (simp add: power_int_def)
    from bitlen_bounds [OF q] have "q < 2 ^ nat (bitlen q)" by simp
    then have "of_int q < (2::rat) ^ nat (bitlen q)"
      by (metis of_int_less_iff of_int_numeral of_int_power)
    then have hi: "of_int q \<le> (2::rat) powi (bitlen q)"
      using bitlen_nonneg [of q] by (simp add: power_int_def)
    have "(2::rat) powi (?d - 1) = 2 powi (bitlen p - 1) / 2 powi (bitlen q)"
      using power_int_diff [of "2::rat" "bitlen p - 1" "bitlen q"] by (simp add: algebra_simps)
    also have "\<dots> \<le> of_int p / of_int q"
      using lo hi q p by (intro frac_le) simp_all
    finally have "(2::rat) powi (?d - 1) \<le> x" using x by simp
    with False pq show ?thesis by (simp add: bin_exponent_def)
  qed
qed

lemma bin_exponent_upper:
  assumes "0 < x"
  shows "x < 2 powi (bin_exponent x + 1)"
proof -
  obtain p q where pq: "quotient_of x = (p, q)" by (cases "quotient_of x")
  then have q: "0 < q" and x: "x = of_int p / of_int q"
    using quotient_of_denom_pos [OF pq] quotient_of_div [OF pq] by simp_all
  from assms q x have p: "0 < p"
    by (simp add: zero_less_divide_iff)
  let ?d = "bitlen p - bitlen q"
  show ?thesis
  proof (cases "2 powi ?d \<le> x")
    case True
    from bitlen_bounds [OF p] have "p < 2 ^ nat (bitlen p)" by simp
    then have "of_int p < (2::rat) ^ nat (bitlen p)"
      by (metis of_int_less_iff of_int_numeral of_int_power)
    then have hi: "of_int p < (2::rat) powi (bitlen p)"
      using bitlen_nonneg [of p] by (simp add: power_int_def)
    from bitlen_bounds [OF q] have "2 ^ nat (bitlen q - 1) \<le> q" by simp
    then have "(2::rat) ^ nat (bitlen q - 1) \<le> of_int q"
      by (metis of_int_le_iff of_int_numeral of_int_power)
    moreover have "1 \<le> bitlen q"
      using q bitlen_eq_zero_iff [of q] bitlen_nonneg [of q] by linarith
    ultimately have lo: "(2::rat) powi (bitlen q - 1) \<le> of_int q"
      by (simp add: power_int_def)
    have "of_int p / of_int q < 2 powi (bitlen p) / (2::rat) powi (bitlen q - 1)"
      using lo hi q p by (intro frac_less) simp_all
    also have "\<dots> = 2 powi (?d + 1)"
      using power_int_diff [of "2::rat" "bitlen p" "bitlen q - 1"] by (simp add: algebra_simps)
    finally show ?thesis using True pq x by (simp add: bin_exponent_def)
  next
    case False
    with pq show ?thesis by (simp add: bin_exponent_def)
  qed
qed

lemma fl_error:
  assumes "0 \<le> x"
  shows "\<bar>fl x - x\<bar> \<le> (x + 1) / 2 ^ 53"
proof (cases "x = 0")
  case True
  then show ?thesis by (simp add: fl_def)
next
  case False
  with assms have pos: "0 < x" by simp
  define e where "e = max (bin_exponent x) (- 1022)"
  define u :: rat where "u = 2 powi (e - 52)"
  have u: "0 < u" by (simp add: u_def)
  have f: "fl x = of_int (round_half_even (x / u)) * u"
    using pos by (simp add: fl_def Let_def e_def u_def)
  have "fl x - x = (of_int (round_half_even (x / u)) - x / u) * u"
    using u by (simp add: f field_simps)
  then have "\<bar>fl x - x\<bar> = \<bar>of_int (round_half_even (x / u)) - x / u\<bar> * u"
    using u by (simp add: abs_mult)
  also have "\<dots> \<le> (1 / 2) * u"
    using round_half_even_error [of "x / u"] u by (intro mult_right_mono) simp_all
  finally have 1: "\<bar>fl x - x\<bar> \<le> u / 2" by simp
  have "(2::rat) powi (- 1022) \<le> 2 powi 0"
    by (rule power_int_increasing) simp_all
  then have small: "(2::rat) powi (- 1022) \<le> 1" by simp
  have "(2::rat) powi e \<le> x + 1"
  proof (cases "bin_exponent x \<le> - 1022")
    case True
    then have "e = - 1022" by (simp add: e_def)
    with small pos show ?thesis by simp
  next
    case False
    then have "e = bin_exponent x" by (simp add: e_def)
    with bin_exponent_lower [OF pos] show ?thesis by simp
  qed
  moreover have "u = 2 powi e / 2 ^ 52"
    unfolding u_def using power_int_diff [of "2::rat" e 52] by simp
  ultimately have "u / 2 \<le> (x + 1) / 2 ^ 53"
    by (simp add: field_simps)
  with 1 show ?thesis by linarith
qed

lemma fl_nonneg:
  assumes "0 \<le> x"
  shows "0 \<le> fl x"
proof (cases "x = 0")
  case True
  then show ?thesis by (simp add: fl_def)
next
  case False
  with assms have pos: "0 < x" by simp
  then have "0 \<le> round_half_even (x / 2 powi (max (bin_exponent x) (- 1022) - 52))"
    by (intro round_half_even_nonneg) simp
  with pos show ?thesis by (simp add: fl_def Let_def)
qed

lemma percentage_close:
  fixes k n :: nat
  assumes n: "0 < n" and kn: "k \<le> n"
  shows "\<bar>of_int (round_half_even (float_mul (int_truediv (int k) (int n)) 100 * 100))
           - 10000 * of_nat k / of_nat n\<bar> \<le> (1 / 2 + 50100 / 2 ^ 53 :: rat)"
proof -
  define q :: rat where "q = of_int (int k) / of_int (int n)"
  define a where "a = fl q"
  define b where "b = fl (a * 100)"
  define m where "m = round_half_even (b * 100)"
  define eps :: rat where "eps = 1 / 2 ^ 53"
  have eps: "0 < eps" "eps \<le> 1" by (simp_all add: eps_def)
  have q0: "0 \<le> q" by (simp add: q_def)
  have q1: "q \<le> 1" using n kn by (simp add: q_def)
  have a0: "0 \<le> a" unfolding a_def by (rule fl_nonneg [OF q0])
  have "\<bar>a - q\<bar> \<le> (q + 1) / 2 ^ 53"
    unfolding a_def by (rule fl_error [OF q0])
  then have ea: "\<bar>a - q\<bar> \<le> (q + 1) * eps" by (simp add: eps_def)
  have "(q + 1) * eps \<le> 2 * eps"
    using q1 eps by (intro mult_right_mono) simp_all
  with ea have ea': "\<bar>a - q\<bar> \<le> 2 * eps" by linarith
  have a100: "0 \<le> a * 100" using a0 by simp
  have "\<bar>b - a * 100\<bar> \<le> (a * 100 + 1) / 2 ^ 53"
    unfolding b_def by (rule fl_error [OF a100])
  then have eb: "\<bar>b - a * 100\<bar> \<le> (a * 100 + 1) * eps" by (simp add: eps_def)
  have "a \<le> 3" using ea' q1 eps by linarith
  then have "(a * 100 + 1) * eps \<le> 301 * eps"
    using eps by (intro mult_right_mono) simp_all
  with eb have eb': "\<bar>b - a * 100\<bar> \<le> 301 * eps" by linarith
  have em: "\<bar>of_int m - b * 100\<bar> \<le> 1 / 2"
    unfolding m_def by (rule round_half_even_error)
  have close: "\<bar>of_int m - 10000 * q\<bar> \<le> 1 / 2 + 50100 * eps"
    using ea' eb' em by linarith
  then show ?thesis
    by (simp add: m_def b_def a_def q_def float_mul_def int_truediv_def eps_def)
qed

lemma percentage_nearest:
  fixes k n :: nat
  assumes n: "0 < n" and kn: "k \<le> n" and bound: "n < 2 ^ 32"
  shows "\<bar>of_int (round_half_even (float_mul (int_truediv (int k) (int n)) 100 * 100))
           - 10000 * of_nat k / of_nat n\<bar> \<le> (1 / 2 :: rat)"
proof -
  define q :: rat where "q = of_nat k / of_nat n"
  define m where "m = round_half_even (float_mul (int_truediv (int k) (int n)) 100 * 100)"
  define eps :: rat where "eps = 1 / 2 ^ 53"
  have close: "\<bar>of_int m - 10000 * q\<bar> \<le> 1 / 2 + 50100 * eps"
    using percentage_close [OF n kn] by (simp add: m_def q_def eps_def)
  define D :: int where "D = 2 * int n * m - 20000 * int k"
  have nq: "of_nat n * q = (of_nat k :: rat)" using n by (simp add: q_def)
  have "(of_int D :: rat) = 2 * of_nat n * of_int m - 20000 * (of_nat n * q)"
    by (simp add: D_def nq)
  then have D: "(of_int D :: rat) = 2 * of_nat n * (of_int m - 10000 * q)"
    by (simp add: algebra_simps)
  have npos: "(0::rat) < of_nat n" using n by simp
  have "\<bar>of_int D :: rat\<bar> = 2 * of_nat n * \<bar>of_int m - 10000 * q\<bar>"
    unfolding D by (simp add: abs_mult)
  also have "\<dots> \<le> 2 * of_nat n * (1 / 2 + 50100 * eps)"
    using close npos by (intro mult_left_mono) simp_all
  also have "\<dots> = of_nat n + of_nat n * (100200 / 2 ^ 53)"
    by (simp add: algebra_simps eps_def)
  also have "\<dots> < of_nat n + 1"
  proof -
    have "(of_nat n :: rat) < 2 ^ 32"
      using bound by (metis of_nat_less_iff of_nat_numeral of_nat_power)
    then have "(of_nat n :: rat) * (100200 / 2 ^ 53) < 2 ^ 32 * (100200 / 2 ^ 53)"
      by (intro mult_strict_right_mono) simp_all
    also have "\<dots> < 1" by simp
    finally show ?thesis by simp
  qed
  finally have "\<bar>of_int D :: rat\<bar> < of_int (int n + 1)" by simp
  then have "\<bar>D\<bar> < int n + 1"
    by (metis of_int_abs of_int_less_iff)
  then have "\<bar>D\<bar> \<le> int n" by simp
  then have "\<bar>of_int D :: rat\<bar> \<le> of_nat n"
    by (metis of_int_abs of_int_le_iff of_int_of_nat_eq)
  then have "2 * of_nat n * \<bar>of_int m - 10000 * q\<bar> \<le> (of_nat n :: rat)"
    unfolding D by (simp add: abs_mult)
  then have "\<bar>of_int m - 10000 * q\<bar> \<le> 1 / 2"
    using npos by (simp add: field_simps)
  then show ?thesis
    by (simp add: m_def q_def)
qed


lemma percentage_one_of_four: "py_round2 (float_mul (int_truediv 1 4) 100) = 25"
  by code_simp

lemma float_str_25: "float_str 25 = ''25.0''"
  by code_simp

lemma percentage_23_of_160: "py_round2 (float_mul (int_truediv 23 160) 100) = fl (1437 / 100)"
  by code_simp

lemma percentage_49_of_160: "py_round2 (float_mul (int_truediv 49 160) 100) = fl (3063 / 100)"
  by code_simp

lemma percentage_large:
  "py_round2 (float_mul (int_truediv 381177959741 507189088871) 100) = fl (7516 / 100)"
  by code_simp

lemma float_str_1437: "float_str (fl (1437 / 100)) = ''14.37''"
  by code_simp

lemma float_str_3063: "float_str (fl (3063 / 100)) = ''30.63''"
  by code_simp

lemma percentage_of_replicate:
  "0 < a + b \<Longrightarrow>
   new_contributors_percentage (replicate a alice @ replicate b bob) =
     PyFloat (py_round2 (float_mul (int_truediv (int a) (int (a + b))) 100))"
  by (simp add: new_contributors_percentage_def alice_def bob_def)

text \<open>
  C4, as amended. With both dates the summary prints \<open>new_contributors_percentage\<close>
  followed by a percent sign. For the empty list it is the integer 0. For any other
  list it is the float nearest to \<open>m / 100\<close> for an integer \<open>m\<close> from 0 to 10000 that
  differs from 10000 times the number of new contributors divided by the number of
  contributors by at most \<open>1 / 2 + 50100 / 2 ^ 53\<close>; for fewer than \<open>2 ^ 32\<close>
  contributors by at most \<open>1 / 2\<close>, so that \<open>m\<close> is the nearest integer unless the
  exact value lies halfway between two integers, when it is one of the two. One new
  contributor among four gives the float 25, printed as \<open>25.0\<close>.
\<close>

theorem percentage_of_new_contributors:
  "new_contributors_percentage [] = PyInt 0 \<and>
   (cs \<noteq> [] \<longrightarrow>
      (\<exists>m. 0 \<le> m \<and> m \<le> 10000 \<and>
           new_contributors_percentage cs = PyFloat (fl (of_int m / 100)) \<and>
           \<bar>of_int m - 10000 * of_nat (length (filter new_contributor cs)) / of_nat (length cs)\<bar>
             \<le> (1 / 2 + 50100 / 2 ^ 53 :: rat) \<and>
           (length cs < 2 ^ 32 \<longrightarrow>
              \<bar>of_int m - 10000 * of_nat (length (filter new_contributor cs)) / of_nat (length cs)\<bar>
                \<le> (1 / 2 :: rat) \<and>
              (frac (10000 * of_nat (length (filter new_contributor cs)) / of_nat (length cs) :: rat)
                 \<noteq> 1 / 2 \<longrightarrow>
               m = round (10000 * of_nat (length (filter new_contributor cs))
                            / of_nat (length cs) :: rat))))) \<and>
   (length cs = 4 \<and> length (filter new_contributor cs) = 1 \<longrightarrow>
      new_contributors_percentage cs = PyFloat 25 \<and> str_num (PyFloat 25) = ''25.0'') \<and>
   (truthy sd \<and> truthy ed \<longrightarrow>
      get_summary_table cs sd ed t =
        ''| Total Contributors | Total Contributions | % New Contributors |'' @ nl
        @ ''| --- | --- | --- |'' @ nl
        @ ''| '' @ str_int (int (length cs)) @ '' | '' @ str_int t @ '' | ''
        @ str_num (new_contributors_percentage cs) @ ''% |'' @ nl @ nl)"
proof (intro conjI impI)
  show "new_contributors_percentage [] = PyInt 0"
    by (simp add: new_contributors_percentage_def)
next
  assume "cs \<noteq> []"
  then have n: "0 < length cs" by simp
  have k: "length (filter new_contributor cs) \<le> length cs" by simp
  have f: "(\<lambda>x. new_contributor x = True) = new_contributor" by (simp add: fun_eq_iff)
  define y :: rat where
    "y = 10000 * of_nat (length (filter new_contributor cs)) / of_nat (length cs)"
  define m where
    "m = round_half_even (float_mul (int_truediv (int (length (filter new_contributor cs)))
              (int (length cs))) 100 * 100)"
  have val: "new_contributors_percentage cs = PyFloat (fl (of_int m / 100))"
    using n by (simp add: new_contributors_percentage_def py_round2_def f m_def)
  have close: "\<bar>of_int m - y\<bar> \<le> 1 / 2 + 50100 / 2 ^ 53"
    using percentage_close [OF n k] by (simp add: m_def y_def)
  have y0: "0 \<le> y" by (simp add: y_def)
  have "of_nat (length (filter new_contributor cs)) / (of_nat (length cs) :: rat) \<le> 1"
    using n k by (simp add: divide_le_eq_1)
  then have y1: "y \<le> 10000" by (simp add: y_def)
  have tiny: "(50100 / 2 ^ 53 :: rat) < 1 / 2" by simp
  from close y0 tiny have "(- 1 :: rat) < of_int m" by linarith
  then have m0: "0 \<le> m" by linarith
  from close y1 tiny have "of_int m < (10001 :: rat)" by linarith
  then have m1: "m \<le> 10000" by linarith
  have near: "\<bar>of_int m - y\<bar> \<le> 1 / 2 \<and> (frac y \<noteq> 1 / 2 \<longrightarrow> m = round y)"
    if b: "length cs < 2 ^ 32"
  proof
    show h: "\<bar>of_int m - y\<bar> \<le> 1 / 2"
      using percentage_nearest [OF n k b] by (simp add: m_def y_def)
    show "frac y \<noteq> 1 / 2 \<longrightarrow> m = round y"
    proof
      assume nt: "frac y \<noteq> 1 / 2"
      have "y - 1 / 2 < of_int m"
      proof (rule ccontr)
        assume "\<not> y - 1 / 2 < of_int m"
        with h have "y = of_int m + 1 / 2" by linarith
        then have "frac y = 1 / 2" by (simp add: frac_unique_iff)
        with nt show False by simp
      qed
      moreover have "of_int m \<le> y + 1 / 2" using h by linarith
      ultimately show "m = round y" by (rule round_unique [symmetric])
    qed
  qed
  from m0 m1 val close near
  show "\<exists>m. 0 \<le> m \<and> m \<le> 10000 \<and>
           new_contributors_percentage cs = PyFloat (fl (of_int m / 100)) \<and>
           \<bar>of_int m - 10000 * of_nat (length (filter new_contributor cs)) / of_nat (length cs)\<bar>
             \<le> (1 / 2 + 50100 / 2 ^ 53 :: rat) \<and>
           (length cs < 2 ^ 32 \<longrightarrow>
              \<bar>of_int m - 10000 * of_nat (length (filter new_contributor cs)) / of_nat (length cs)\<bar>
                \<le> (1 / 2 :: rat) \<and>
              (frac (10000 * of_nat (length (filter new_contributor cs)) / of_nat (length cs) :: rat)
                 \<noteq> 1 / 2 \<longrightarrow>
               m = round (10000 * of_nat (length (filter new_contributor cs))
                            / of_nat (length cs) :: rat)))"
    unfolding y_def by (intro exI [of _ m]) blast
next
  assume "length cs = 4 \<and> length (filter new_contributor cs) = 1"
  then show "new_contributors_percentage cs = PyFloat 25"
    by (simp add: new_contributors_percentage_def percentage_one_of_four)
next
  show "str_num (PyFloat 25) = ''25.0''" by (simp add: float_str_25)
next
  assume "truthy sd \<and> truthy ed"
  then show "get_summary_table cs sd ed t =
        ''| Total Contributors | Total Contributions | % New Contributors |'' @ nl
        @ ''| --- | --- | --- |'' @ nl
        @ ''| '' @ str_int (int (length cs)) @ '' | '' @ str_int t @ '' | ''
        @ str_num (new_contributors_percentage cs) @ ''% |'' @ nl @ nl"
    by (simp add: get_summary_table_def)
qed

text \<open>
  C4 as stated has the exact percentage rounded to two decimals for every list. With
  23 new contributors among 160 the exact percentage is 14.375, which rounds to 14.38,
  and the summary prints 14.37; with 49 among 160 it is 30.625, and the summary prints
  30.63, so no rule for the halfway case gives both. For a list of 507189088871
  contributors the float is not nearest to the exact percentage at all.
\<close>

theorem percentage_counterexample:
  "new_contributors_percentage (replicate 23 alice @ replicate 137 bob) = PyFloat (fl (1437 / 100)) \<and>
   str_num (PyFloat (fl (1437 / 100))) = ''14.37'' \<and>
   (of_nat 23 / of_nat 160 * 100 :: rat) = 14375 / 1000 \<and>
   round_half_even (14375 / 1000 * 100) = 1438 \<and>
   round (14375 / 1000 * 100 :: rat) = 1438 \<and>
   fl (1437 / 100) \<noteq> fl (1438 / 100) \<and>
   new_contributors_percentage (replicate 49 alice @ replicate 111 bob) = PyFloat (fl (3063 / 100)) \<and>
   str_num (PyFloat (fl (3063 / 100))) = ''30.63'' \<and>
   (of_nat 49 / of_nat 160 * 100 :: rat) = 30625 / 1000 \<and>
   round_half_even (30625 / 1000 * 100) = 3062 \<and>
   fl (3063 / 100) \<noteq> fl (3062 / 100) \<and>
   new_contributors_percentage (replicate 381177959741 alice @ replicate 126011129130 bob)
     = PyFloat (fl (7516 / 100)) \<and>
   (1 / 2 :: rat) < \<bar>7516 - 10000 * of_nat 381177959741 / of_nat (381177959741 + 126011129130)\<bar>"
proof -
  have 1: "new_contributors_percentage (replicate 23 alice @ replicate 137 bob) = PyFloat (fl (1437 / 100))"
    using percentage_of_replicate [of 23 137] by (simp add: percentage_23_of_160)
  have 2: "str_num (PyFloat (fl (1437 / 100))) = ''14.37''" by (simp add: float_str_1437)
  have 3: "(of_nat 23 / of_nat 160 * 100 :: rat) = 14375 / 1000" by simp
  have 4: "round_half_even (14375 / 1000 * 100) = 1438" by code_simp
  have 5: "round (14375 / 1000 * 100 :: rat) = 1438" by (simp add: round_def)
  have 6: "fl (1437 / 100) \<noteq> fl (1438 / 100)" by code_simp
  have 7: "new_contributors_percentage (replicate 49 alice @ replicate 111 bob) = PyFloat (fl (3063 / 100))"
    using percentage_of_replicate [of 49 111] by (simp add: percentage_49_of_160)
  have 8: "str_num (PyFloat (fl (3063 / 100))) = ''30.63''" by (simp add: float_str_3063)
  have 9: "(of_nat 49 / of_nat 160 * 100 :: rat) = 30625 / 1000" by simp
  have 10: "round_half_even (30625 / 1000 * 100) = 3062" by code_simp
  have 11: "fl (3063 / 100) \<noteq> fl (3062 / 100)" by code_simp
  have 12: "new_contributors_percentage (replicate 381177959741 alice @ replicate 126011129130 bob)
     = PyFloat (fl (7516 / 100))"
    using percentage_of_replicate [of 381177959741 126011129130] by (simp add: percentage_large)
  have 13: "(1 / 2 :: rat) < \<bar>7516 - 10000 * of_nat 381177959741 / of_nat (381177959741 + 126011129130)\<bar>"
    by simp
  from 1 2 3 4 5 6 7 8 9 10 11 12 13 show ?thesis by (intro conjI)
qed

theorem percentage_of_new_contributors_witness:
  "[alice, bob, bob, bob] \<noteq> [] \<and> length [alice, bob, bob, bob] < 2 ^ 32 \<and>
   frac (10000 * of_nat (length (filter new_contributor [alice, bob, bob, bob]))
           / of_nat (length [alice, bob, bob, bob]) :: rat) \<noteq> 1 / 2 \<and>
   length [alice, bob, bob, bob] = 4 \<and> length (filter new_contributor [alice, bob, bob, bob]) = 1 \<and>
   truthy (Some ''2024-01-01'') \<and> truthy (Some ''2024-02-01'') \<and>
   new_contributors_percentage [] = PyInt 0 \<and>
   (\<exists>m. 0 \<le> m \<and> m \<le> 10000 \<and>
        new_contributors_percentage [alice, bob, bob, bob] = PyFloat (fl (of_int m / 100)) \<and>
        \<bar>of_int m - 10000 * of_nat (length (filter new_contributor [alice, bob, bob, bob]))
                      / of_nat (length [alice, bob, bob, bob])\<bar> \<le> (1 / 2 :: rat) \<and>
        m = round (10000 * of_nat (length (filter new_contributor [alice, bob, bob, bob]))
                     / of_nat (length [alice, bob, bob, bob]) :: rat)) \<and>
   new_contributors_percentage [alice, bob, bob, bob] = PyFloat 25 \<and>
   get_summary_table [alice, bob, bob, bob] (Some ''2024-01-01'') (Some ''2024-02-01'') 26 =
     ''| Total Contributors | Total Contributions | % New Contributors |'' @ nl
     @ ''| --- | --- | --- |'' @ nl
     @ ''| 4 | 26 | 25.0% |'' @ nl @ nl"
proof -
  have 1: "[alice, bob, bob, bob] \<noteq> []" "length [alice, bob, bob, bob] < 2 ^ 32" by simp_all
  have 2: "length [alice, bob, bob, bob] = 4 \<and> length (filter new_contributor [alice, bob, bob, bob]) = 1"
    by (simp add: alice_def bob_def)
  have 3: "truthy (Some ''2024-01-01'') \<and> truthy (Some ''2024-02-01'')" by simp
  have 4: "frac (10000 * of_nat (length (filter new_contributor [alice, bob, bob, bob]))
           / of_nat (length [alice, bob, bob, bob]) :: rat) \<noteq> 1 / 2"
    by (simp add: alice_def bob_def frac_def)
  note r = percentage_of_new_contributors [of "[alice, bob, bob, bob]" "Some ''2024-01-01''"
      "Some ''2024-02-01''" 26]
  from r have a: "new_contributors_percentage [] = PyInt 0" by (rule conjunct1)
  from r 1 4 have b: "\<exists>m. 0 \<le> m \<and> m \<le> 10000 \<and>
        new_contributors_percentage [alice, bob, bob, bob] = PyFloat (fl (of_int m / 100)) \<and>
        \<bar>of_int m - 10000 * of_nat (length (filter new_contributor [alice, bob, bob, bob]))
                      / of_nat (length [alice, bob, bob, bob])\<bar> \<le> (1 / 2 :: rat) \<and>
        m = round (10000 * of_nat (length (filter new_contributor [alice, bob, bob, bob]))
                     / of_nat (length [alice, bob, bob, bob]) :: rat)"
    by blast
  from r 2 have c: "new_contributors_percentage [alice, bob, bob, bob] = PyFloat 25" by blast
  have "str_int 4 = ''4''" "str_int 26 = ''26''" by code_simp+
  with r 3 c 2 have d: "get_summary_table [alice, bob, bob, bob] (Some ''2024-01-01'') (Some ''2024-02-01'') 26 =
     ''| Total Contributors | Total Contributions | % New Contributors |'' @ nl
     @ ''| --- | --- | --- |'' @ nl
     @ ''| 4 | 26 | 25.0% |'' @ nl @ nl"
    by (simp add: float_str_25)
  from 1 2 3 4 a b c d show ?thesis by (intro conjI) simp_all
qed

section \<open>The total in the summary\<close>

lemma digit_value_digit_char: "d < 10 \<Longrightarrow> digit_value (digit_char d) = d"
  by (simp add: digit_value_def digit_char_def)

lemma digit_char_not_minus: "d < 10 \<Longrightarrow> digit_char d \<noteq> CHR ''-''"
proof
  assume d: "d < 10" and "digit_char d = CHR ''-''"
  then have "(of_char (digit_char d) :: nat) = of_char (CHR ''-'')" by simp
  with d show False by (simp add: digit_char_def)
qed

lemma nat_of_decimal_str_nat: "nat_of_decimal (str_nat n) = n"
proof (induction n rule: str_nat.induct)
  case (1 n)
  show ?case
  proof (cases "n < 10")
    case True
    then show ?thesis
      by (subst str_nat.simps) (simp add: nat_of_decimal_def digit_value_digit_char del: str_nat.simps)
  next
    case False
    have "nat_of_decimal (str_nat n)
        = 10 * nat_of_decimal (str_nat (n div 10)) + digit_value (digit_char (n mod 10))"
      using False by (subst str_nat.simps) (simp add: nat_of_decimal_def del: str_nat.simps)
    with "1.IH" [OF False] show ?thesis by (simp add: digit_value_digit_char)
  qed
qed

lemma str_nat_head: "\<exists>d cs. d < 10 \<and> str_nat n = digit_char d # cs"
proof (induction n rule: str_nat.induct)
  case (1 n)
  show ?case
  proof (cases "n < 10")
    case True
    then show ?thesis by (subst str_nat.simps) (auto simp del: str_nat.simps)
  next
    case False
    from "1.IH" [OF False] obtain d cs where "d < 10" "str_nat (n div 10) = digit_char d # cs"
      by blast
    with False show ?thesis by (subst str_nat.simps) (auto simp del: str_nat.simps)
  qed
qed

lemma int_of_decimal_str_int: "int_of_decimal (str_int i) = i"
proof (cases "i < 0")
  case True
  then show ?thesis
    by (simp add: str_int_def int_of_decimal_def nat_of_decimal_str_nat del: str_nat.simps)
next
  case False
  obtain d cs where d: "d < 10" and s: "str_nat (nat i) = digit_char d # cs"
    using str_nat_head by blast
  have "nat_of_decimal (digit_char d # cs) = nat i"
    using nat_of_decimal_str_nat [of "nat i"] s by (simp del: str_nat.simps)
  with False d s digit_char_not_minus [OF d] show ?thesis
    by (simp add: str_int_def int_of_decimal_def del: str_nat.simps)
qed

lemma get_contributor_table_distinct:
  "get_contributor_table cs sd ed organization rp sp lp shown = Inr (tbl, t) \<Longrightarrow>
   distinct (map fst tbl)"
proof -
  assume "get_contributor_table cs sd ed organization rp sp lp shown = Inr (tbl, t)"
  then obtain cells where
    "tbl = render_tables (table_headers (table_columns sd ed sp))
            (group_rows [] (keyed_rows (table_columns sd ed sp) lp shown cs cells))"
    by (auto simp: get_contributor_table_rows split: sum.splits)
  then show ?thesis
    by (simp add: render_tables_keys group_rows_distinct)
qed

lemma org_sections_returns:
  assumes "distinct (map fst table)"
  shows "\<exists>sections. org_sections table = Inr sections"
proof (cases "length table = 1 \<and> ''Independent'' \<in> set (map fst table)")
  case True
  then obtain t where "table = [(''Independent'', t)]"
    by (cases table) auto
  then show ?thesis by (simp add: org_sections_def dict_get_def)
next
  case False
  from org_sections_order [OF assms False] show ?thesis by blast
qed

text \<open>
  C1. When the table builder returns, the total it returns is the sum of
  \<open>contribution_count\<close> over the list; the summary table made from it has the number
  of contributors and this sum as the first two cells of its only row, the sum printed
  as the decimal numeral that reads back as it; and \<open>write_to_markdown\<close> writes this summary table into the document, between the
  header lines and the sections of the groups.
\<close>

theorem total_contributions_is_sum:
  "get_contributor_table cs sd ed organization rp sp lp shown = Inr (tbl, t) \<Longrightarrow>
   t = sum_list (map contribution_count cs) \<and>
   get_summary_table cs sd ed t =
     (if truthy sd \<and> truthy ed
      then ''| Total Contributors | Total Contributions | % New Contributors |'' @ nl
           @ ''| --- | --- | --- |'' @ nl
           @ ''| '' @ str_int (int (length cs))
           @ '' | '' @ str_int (sum_list (map contribution_count cs))
           @ '' | '' @ str_num (new_contributors_percentage cs) @ ''% |'' @ nl @ nl
      else ''| Total Contributors | Total Contributions |'' @ nl
           @ ''| --- | --- |'' @ nl
           @ ''| '' @ str_int (int (length cs))
           @ '' | '' @ str_int (sum_list (map contribution_count cs)) @ '' |'' @ nl @ nl) \<and>
   int_of_decimal (str_int (sum_list (map contribution_count cs)))
     = sum_list (map contribution_count cs) \<and>
   (\<exists>sections. org_sections tbl = Inr sections \<and>
      write_to_markdown cs filename sd ed organization rp sp lp shown fs =
        (if writable fs filename
         then Inr (fs\<lparr> files := (files fs)(filename \<mapsto>
                     ''# Contributors'' @ nl @ nl
                     @ (if truthy sd \<and> truthy ed
                        then ''- Date range for contributor list:  '' @ fmt_opt sd
                             @ '' to '' @ fmt_opt ed @ nl
                        else [])
                     @ (if truthy organization
                        then ''- Organization: '' @ fmt_opt organization @ nl else [])
                     @ (if truthy_repo rp then ''- Repository: '' @ fmt_repo rp @ nl else [])
                     @ nl
                     @ get_summary_table cs sd ed (sum_list (map contribution_count cs))
                     @ sections
                     @ footer) \<rparr>)
         else Inl OSError))"
proof -
  assume run: "get_contributor_table cs sd ed organization rp sp lp shown = Inr (tbl, t)"
  then have t: "t = sum_list (map contribution_count cs)"
    by (auto simp: get_contributor_table_rows split: sum.splits)
  have s: "get_summary_table cs sd ed t =
     (if truthy sd \<and> truthy ed
      then ''| Total Contributors | Total Contributions | % New Contributors |'' @ nl
           @ ''| --- | --- | --- |'' @ nl
           @ ''| '' @ str_int (int (length cs))
           @ '' | '' @ str_int (sum_list (map contribution_count cs))
           @ '' | '' @ str_num (new_contributors_percentage cs) @ ''% |'' @ nl @ nl
      else ''| Total Contributors | Total Contributions |'' @ nl
           @ ''| --- | --- |'' @ nl
           @ ''| '' @ str_int (int (length cs))
           @ '' | '' @ str_int (sum_list (map contribution_count cs)) @ '' |'' @ nl @ nl)"
    unfolding t by (simp add: get_summary_table_def)
  from org_sections_returns [OF get_contributor_table_distinct [OF run]]
  obtain sections where sec: "org_sections tbl = Inr sections" by blast
  have w: "write_to_markdown cs filename sd ed organization rp sp lp shown fs =
        (if writable fs filename
         then Inr (fs\<lparr> files := (files fs)(filename \<mapsto>
                     ''# Contributors'' @ nl @ nl
                     @ (if truthy sd \<and> truthy ed
                        then ''- Date range for contributor list:  '' @ fmt_opt sd
                             @ '' to '' @ fmt_opt ed @ nl
                        else [])
                     @ (if truthy organization
                        then ''- Organization: '' @ fmt_opt organization @ nl else [])
                     @ (if truthy_repo rp then ''- Repository: '' @ fmt_repo rp @ nl else [])
                     @ nl
                     @ get_summary_table cs sd ed (sum_list (map contribution_count cs))
                     @ sections
                     @ footer) \<rparr>)
         else Inl OSError)"
    using run t sec
    by (simp add: write_to_markdown_def write_markdown_file_def document_text_def)
  have d: "int_of_decimal (str_int (sum_list (map contribution_count cs)))
     = sum_list (map contribution_count cs)"
    by (rule int_of_decimal_str_int)
  from t s d sec w show ?thesis by (intro conjI exI [of _ sections])
qed

theorem total_contributions_is_sum_witness:
  "get_contributor_table [alice, bob] (Some ''2024-01-01'') (Some ''2024-02-01'') (Some ''o1'')
     (RScalar None) ''true'' ''false'' [''o2'']
   = Inr (example_tables, 12) \<and>
   (12 :: int) = sum_list (map contribution_count [alice, bob]) \<and>
   get_summary_table [alice, bob] (Some ''2024-01-01'') (Some ''2024-02-01'') 12 =
     ''| Total Contributors | Total Contributions | % New Contributors |'' @ nl
     @ ''| --- | --- | --- |'' @ nl
     @ ''| 2 | 12 | 50.0% |'' @ nl @ nl \<and>
   int_of_decimal (str_int 12) = 12 \<and>
   (\<exists>sections. org_sections example_tables = Inr sections \<and>
      write_to_markdown [alice, bob] ''out.md'' (Some ''2024-01-01'') (Some ''2024-02-01'')
          (Some ''o1'') (RScalar None) ''true'' ''false'' [''o2''] empty_fs =
        Inr (empty_fs\<lparr> files := (files empty_fs)(''out.md'' \<mapsto>
               ''# Contributors'' @ nl @ nl
               @ ''- Date range for contributor list:  2024-01-01 to 2024-02-01'' @ nl
               @ ''- Organization: o1'' @ nl
               @ nl
               @ ''| Total Contributors | Total Contributions | % New Contributors |'' @ nl
               @ ''| --- | --- | --- |'' @ nl
               @ ''| 2 | 12 | 50.0% |'' @ nl @ nl
               @ sections
               @ footer) \<rparr>))"
proof -
  note r = total_contributions_is_sum [OF example_run, where filename = "''out.md''" and fs = empty_fs]
  have e: "get_summary_table [alice, bob] (Some ''2024-01-01'') (Some ''2024-02-01'') 12 =
     ''| Total Contributors | Total Contributions | % New Contributors |'' @ nl
     @ ''| --- | --- | --- |'' @ nl
     @ ''| 2 | 12 | 50.0% |'' @ nl @ nl"
    by code_simp
  have s: "sum_list (map contribution_count [alice, bob]) = 12"
    by (simp add: alice_def bob_def)
  note r3 = conjunct2 [OF conjunct2 [OF conjunct2 [OF r]]]
  have i: "int_of_decimal (str_int 12) = 12"
    using conjunct1 [OF conjunct2 [OF conjunct2 [OF r]]] unfolding s .
  have w: "\<exists>sections. org_sections example_tables = Inr sections \<and>
      write_to_markdown [alice, bob] ''out.md'' (Some ''2024-01-01'') (Some ''2024-02-01'')
          (Some ''o1'') (RScalar None) ''true'' ''false'' [''o2''] empty_fs =
        Inr (empty_fs\<lparr> files := (files empty_fs)(''out.md'' \<mapsto>
               ''# Contributors'' @ nl @ nl
               @ ''- Date range for contributor list:  2024-01-01 to 2024-02-01'' @ nl
               @ ''- Organization: o1'' @ nl
               @ nl
               @ ''| Total Contributors | Total Contributions | % New Contributors |'' @ nl
               @ ''| --- | --- | --- |'' @ nl
               @ ''| 2 | 12 | 50.0% |'' @ nl @ nl
               @ sections
               @ footer) \<rparr>)"
    using r3 unfolding s e by (simp add: empty_fs_def)
  from example_run s [symmetric] e i w show ?thesis by (intro conjI)
qed

section \<open>The commit-reference cell\<close>

lemma py_split_acc_nonempty: "py_split_acc sep cur s \<noteq> []"
  by (induction sep cur s rule: py_split_acc.induct) auto

lemma py_split_acc_single:
  "py_split_acc sep cur s = [x] \<Longrightarrow> sep \<noteq> [] \<Longrightarrow> x = cur @ s \<and> \<not> sublist sep s"
proof (induction sep cur s rule: py_split_acc.induct)
  case (1 sep cur)
  then show ?case by simp
next
  case (2 sep cur c cs)
  have np: "\<not> prefix sep (c # cs)"
  proof
    assume "prefix sep (c # cs)"
    with "2.prems" have "py_split_acc sep [] (drop (length sep) (c # cs)) = []" by simp
    with py_split_acc_nonempty show False by blast
  qed
  with "2.prems" have "py_split_acc sep (cur @ [c]) cs = [x]" by simp
  from "2.IH"(2) [OF _ this "2.prems"(2)] np
  show ?case by (simp add: sublist_Cons_right)
qed

lemma py_split_acc_cut:
  "py_split_acc sep cur s = x # y # ys \<Longrightarrow>
   \<exists>a b. s = a @ sep @ b \<and> x = cur @ a \<and> \<not> sublist sep a \<and> py_split_acc sep [] b = y # ys"
proof (induction sep cur s arbitrary: x rule: py_split_acc.induct)
  case (1 sep cur)
  then show ?case by simp
next
  case (2 sep cur c cs)
  show ?case
  proof (cases "sep \<noteq> [] \<and> prefix sep (c # cs)")
    case True
    then obtain b where b: "c # cs = sep @ b" by (auto simp: prefix_def)
    then have d: "drop (length sep) (c # cs) = b" by (metis append_eq_conv_conj)
    from True "2.prems"
    have "cur # py_split_acc sep [] (drop (length sep) (c # cs)) = x # y # ys" by simp
    with d have "x = cur" "py_split_acc sep [] b = y # ys" by simp_all
    with b True show ?thesis by (intro exI [of _ "[]"] exI [of _ b]) simp
  next
    case False
    with "2.prems" have "py_split_acc sep (cur @ [c]) cs = x # y # ys" by auto
    from "2.IH"(2) [OF False this] obtain a b where
      ab: "cs = a @ sep @ b" "x = (cur @ [c]) @ a" "\<not> sublist sep a"
          "py_split_acc sep [] b = y # ys"
      by blast
    have ne: "sep \<noteq> []"
    proof
      assume "sep = []"
      with ab(3) show False by simp
    qed
    have "\<not> prefix sep (c # a)"
    proof
      assume "prefix sep (c # a)"
      then have "prefix sep ((c # a) @ sep @ b)" by (rule prefix_prefix)
      with ab(1) ne False show False by simp
    qed
    with ab(3) have "\<not> sublist sep (c # a)" by (simp add: sublist_Cons_right)
    with ab show ?thesis by (intro exI [of _ "c # a"] exI [of _ b]) simp
  qed
qed

lemma org_repo_link_name_general:
  assumes "\<not> sublist ''github.com/'' pre" and "\<not> sublist ''github.com/'' name"
    and "rest = [] \<or> prefix ''github.com/'' rest"
    and "\<not> sublist ''/commits'' (pre @ ''github.com/'' @ name @ rest)"
  shows "org_repo_link_name (pre @ ''github.com/'' @ name @ rest @ ''/commits'' @ post) = Inr name"
    and "org_repo_link_name (pre @ ''github.com/'' @ name @ rest) = Inr name"
proof -
  let ?front = "pre @ ''github.com/'' @ name @ rest"
  have 1: "py_split ''/commits'' (?front @ ''/commits'' @ post)
        = ?front # py_split_acc ''/commits'' [] post"
    unfolding py_split_def
    using py_split_acc_first [of "CHR ''/''" "''commits''" ?front "[]" post] assms(4)
    by simp
  have whole: "py_split ''/commits'' ?front = [?front]"
    unfolding py_split_def using py_split_acc_none [OF assms(4), of "[]"] by simp
  have 2: "py_split ''github.com/'' ?front = pre # py_split_acc ''github.com/'' [] (name @ rest)"
    unfolding py_split_def
    using py_split_acc_first [of "CHR ''g''" "''ithub.com/''" pre "[]" "name @ rest"] assms(1)
    by simp
  have 3: "\<exists>more. py_split_acc ''github.com/'' [] (name @ rest) = name # more"
  proof (cases "rest = []")
    case True
    with py_split_acc_none [OF assms(2), of "[]"] show ?thesis by simp
  next
    case False
    with assms(3) obtain r where "rest = ''github.com/'' @ r" by (auto simp: prefix_def)
    with py_split_acc_first [of "CHR ''g''" "''ithub.com/''" name "[]" r] assms(2)
    show ?thesis by simp
  qed
  from 1 2 3 have "org_repo_link_name (?front @ ''/commits'' @ post) = Inr name"
    by (auto simp: org_repo_link_name_def)
  then show "org_repo_link_name (pre @ ''github.com/'' @ name @ rest @ ''/commits'' @ post) = Inr name"
    by simp
  from whole 2 3 show "org_repo_link_name ?front = Inr name"
    by (auto simp: org_repo_link_name_def)
qed

lemma org_repo_link_name_shape:
  assumes "org_repo_link_name url = Inr name"
  shows "\<exists>pre rest post.
           \<not> sublist ''github.com/'' pre \<and> \<not> sublist ''github.com/'' name \<and>
           (rest = [] \<or> prefix ''github.com/'' rest) \<and>
           \<not> sublist ''/commits'' (pre @ ''github.com/'' @ name @ rest) \<and>
           (url = pre @ ''github.com/'' @ name @ rest @ ''/commits'' @ post \<or>
            url = pre @ ''github.com/'' @ name @ rest)"
proof -
  from assms obtain front others pre more where
    f: "py_split_acc ''/commits'' [] url = front # others" and
    g: "py_split_acc ''github.com/'' [] front = pre # name # more"
    by (auto simp: org_repo_link_name_def py_split_def split: list.splits)
  from py_split_acc_cut [OF g] obtain b where
    front: "front = pre @ ''github.com/'' @ b" and pre: "\<not> sublist ''github.com/'' pre" and
    b: "py_split_acc ''github.com/'' [] b = name # more"
    by auto
  have "\<exists>rest. b = name @ rest \<and> \<not> sublist ''github.com/'' name \<and>
          (rest = [] \<or> prefix ''github.com/'' rest)"
  proof (cases more)
    case Nil
    with py_split_acc_single [OF b [unfolded Nil]] show ?thesis by simp
  next
    case (Cons y ys)
    from py_split_acc_cut [OF b [unfolded Cons]] obtain r where
      "b = name @ ''github.com/'' @ r" "\<not> sublist ''github.com/'' name"
      by auto
    then show ?thesis by (intro exI [of _ "''github.com/'' @ r"]) simp
  qed
  then obtain rest where
    rest: "b = name @ rest" "\<not> sublist ''github.com/'' name"
          "rest = [] \<or> prefix ''github.com/'' rest"
    by blast
  have "\<not> sublist ''/commits'' front \<and>
        (url = front \<or> (\<exists>post. url = front @ ''/commits'' @ post))"
  proof (cases others)
    case Nil
    with py_split_acc_single [OF f [unfolded Nil]] show ?thesis by simp
  next
    case (Cons y ys)
    from py_split_acc_cut [OF f [unfolded Cons]] show ?thesis by auto
  qed
  with front rest pre show ?thesis by auto
qed

lemma org_repo_link_name_iff:
  "org_repo_link_name url = Inr name \<longleftrightarrow>
   (\<exists>pre rest post.
      \<not> sublist ''github.com/'' pre \<and> \<not> sublist ''github.com/'' name \<and>
      (rest = [] \<or> prefix ''github.com/'' rest) \<and>
      \<not> sublist ''/commits'' (pre @ ''github.com/'' @ name @ rest) \<and>
      (url = pre @ ''github.com/'' @ name @ rest @ ''/commits'' @ post \<or>
       url = pre @ ''github.com/'' @ name @ rest))"
proof
  assume "org_repo_link_name url = Inr name"
  then show "\<exists>pre rest post.
      \<not> sublist ''github.com/'' pre \<and> \<not> sublist ''github.com/'' name \<and>
      (rest = [] \<or> prefix ''github.com/'' rest) \<and>
      \<not> sublist ''/commits'' (pre @ ''github.com/'' @ name @ rest) \<and>
      (url = pre @ ''github.com/'' @ name @ rest @ ''/commits'' @ post \<or>
       url = pre @ ''github.com/'' @ name @ rest)"
    by (rule org_repo_link_name_shape)
next
  assume "\<exists>pre rest post.
      \<not> sublist ''github.com/'' pre \<and> \<not> sublist ''github.com/'' name \<and>
      (rest = [] \<or> prefix ''github.com/'' rest) \<and>
      \<not> sublist ''/commits'' (pre @ ''github.com/'' @ name @ rest) \<and>
      (url = pre @ ''github.com/'' @ name @ rest @ ''/commits'' @ post \<or>
       url = pre @ ''github.com/'' @ name @ rest)"
  then obtain pre rest post where
    h: "\<not> sublist ''github.com/'' pre" "\<not> sublist ''github.com/'' name"
       "rest = [] \<or> prefix ''github.com/'' rest"
       "\<not> sublist ''/commits'' (pre @ ''github.com/'' @ name @ rest)" and
    u: "url = pre @ ''github.com/'' @ name @ rest @ ''/commits'' @ post \<or>
        url = pre @ ''github.com/'' @ name @ rest"
    by blast
  from u show "org_repo_link_name url = Inr name"
  proof
    assume "url = pre @ ''github.com/'' @ name @ rest @ ''/commits'' @ post"
    with org_repo_link_name_general(1) [OF h] show ?thesis by simp
  next
    assume "url = pre @ ''github.com/'' @ name @ rest"
    with org_repo_link_name_general(2) [OF h] show ?thesis by simp
  qed
qed

text \<open>
  The commit-reference cell of the rows that the table builder returns. With an
  organization, or with more than one repository after a scalar has been wrapped in a
  list, the cell is made of one markdown link per comma-separated URL, stripped, each
  followed by a comma and a space, the last one too. The text of a link is \<open>name\<close>
  exactly when the URL is \<open>pre\<close>, \<open>github.com/\<close>, \<open>name\<close>, \<open>rest\<close> and then either
  nothing or \<open>/commits\<close> and anything, where \<open>github.com/\<close> occurs neither in \<open>pre\<close>
  nor in \<open>name\<close>, \<open>rest\<close> is empty or starts with \<open>github.com/\<close>, and \<open>/commits\<close>
  does not occur before the one shown: the text that follows the first \<open>github.com/\<close>,
  up to the first \<open>/commits\<close> of the URL. Otherwise the cell is \<open>commit_url\<close> as it
  stands.
\<close>

theorem commit_reference_cell:
  assumes "get_contributor_table cs sd ed organization rp sp lp shown = Inr (tbl, t)"
  shows "(\<exists>cells. length cells = length cs \<and>
           tbl = render_tables (table_headers (table_columns sd ed sp))
                   (group_rows []
                      (map (\<lambda>(c, cell).
                              (group_of shown c,
                               row_start (table_columns sd ed sp) lp c @ '' '' @ cell @ '' |'' @ nl))
                         (zip cs cells))) \<and>
           cells = map (\<lambda>c. if truthy organization \<or> length (normalize_repo rp) > 1
                             then commit_links (commit_url c) else commit_url c) cs) \<and>
         (truthy organization \<or> length (normalize_repo rp) > 1 \<longrightarrow>
            (\<forall>c \<in> set cs. \<forall>u \<in> set (py_split '','' (commit_url c)).
               org_repo_link_name (py_strip u) = Inr (link_name (py_strip u)))) \<and>
         (\<forall>url name.
            org_repo_link_name url = Inr name \<longleftrightarrow>
            (\<exists>pre rest post.
               \<not> sublist ''github.com/'' pre \<and> \<not> sublist ''github.com/'' name \<and>
               (rest = [] \<or> prefix ''github.com/'' rest) \<and>
               \<not> sublist ''/commits'' (pre @ ''github.com/'' @ name @ rest) \<and>
               (url = pre @ ''github.com/'' @ name @ rest @ ''/commits'' @ post \<or>
                url = pre @ ''github.com/'' @ name @ rest)))"
proof -
  from assms obtain cells where
    c: "commit_cells organization rp cs = Inr cells" and
    tbl: "tbl = render_tables (table_headers (table_columns sd ed sp))
            (group_rows [] (keyed_rows (table_columns sd ed sp) lp shown cs cells))"
    by (auto simp: get_contributor_table_rows split: sum.splits)
  have len: "length cells = length cs"
    by (rule commit_cells_length [OF c])
  have cell: "commit_cell organization rp (cs ! i) =
        Inr (if truthy organization \<or> length (normalize_repo rp) > 1
             then commit_links (commit_url (cs ! i)) else commit_url (cs ! i))"
    if "i < length cs" for i
  proof -
    from commit_cells_nth [OF c that]
    have k: "commit_cell organization rp (cs ! i) = Inr (cells ! i)" .
    show ?thesis
    proof (cases "link_mode organization rp")
      case True
      with k have "link_loop [] (py_split '','' (commit_url (cs ! i))) = Inr (cells ! i)"
        by (simp add: commit_cell_def)
      from link_loop_links [OF this] k True show ?thesis
        by (simp add: commit_links_def link_mode_def)
    next
      case False
      with k show ?thesis
        by (auto simp: commit_cell_def link_mode_def split: if_splits)
    qed
  qed
  have cells: "cells = map (\<lambda>c. if truthy organization \<or> length (normalize_repo rp) > 1
                             then commit_links (commit_url c) else commit_url c) cs"
  proof (rule nth_equalityI)
    show "length cells = length (map (\<lambda>c. if truthy organization \<or> length (normalize_repo rp) > 1
                             then commit_links (commit_url c) else commit_url c) cs)"
      using len by simp
  next
    fix i assume "i < length cells"
    with len have i: "i < length cs" by simp
    from cell [OF i] commit_cells_nth [OF c i] i
    show "cells ! i = map (\<lambda>c. if truthy organization \<or> length (normalize_repo rp) > 1
                             then commit_links (commit_url c) else commit_url c) cs ! i"
      by simp
  qed
  have names: "org_repo_link_name (py_strip u) = Inr (link_name (py_strip u))"
    if "truthy organization \<or> length (normalize_repo rp) > 1" "d \<in> set cs"
       "u \<in> set (py_split '','' (commit_url d))" for d u
  proof -
    from that(2) obtain i where i: "i < length cs" "d = cs ! i"
      by (auto simp: in_set_conv_nth)
    from commit_cells_nth [OF c i(1)] that(1) i(2)
    have "link_loop [] (py_split '','' (commit_url d)) = Inr (cells ! i)"
      by (simp add: commit_cell_def link_mode_def)
    from link_loop_links [OF this] that(3) show ?thesis by blast
  qed
  have rows: "keyed_rows (table_columns sd ed sp) lp shown cs cells =
      map (\<lambda>(c, cell).
            (group_of shown c,
             row_start (table_columns sd ed sp) lp c @ '' '' @ cell @ '' |'' @ nl))
        (zip cs cells)"
    by (simp add: keyed_rows_def row_text_def)
  have first: "\<exists>cells. length cells = length cs \<and>
           tbl = render_tables (table_headers (table_columns sd ed sp))
                   (group_rows []
                      (map (\<lambda>(c, cell).
                              (group_of shown c,
                               row_start (table_columns sd ed sp) lp c @ '' '' @ cell @ '' |'' @ nl))
                         (zip cs cells))) \<and>
           cells = map (\<lambda>c. if truthy organization \<or> length (normalize_repo rp) > 1
                             then commit_links (commit_url c) else commit_url c) cs"
    using len tbl cells rows by (intro exI [of _ cells]) simp
  have second: "truthy organization \<or> length (normalize_repo rp) > 1 \<longrightarrow>
            (\<forall>c \<in> set cs. \<forall>u \<in> set (py_split '','' (commit_url c)).
               org_repo_link_name (py_strip u) = Inr (link_name (py_strip u)))"
    using names by blast
  have third: "\<forall>url name.
            org_repo_link_name url = Inr name \<longleftrightarrow>
            (\<exists>pre rest post.
               \<not> sublist ''github.com/'' pre \<and> \<not> sublist ''github.com/'' name \<and>
               (rest = [] \<or> prefix ''github.com/'' rest) \<and>
               \<not> sublist ''/commits'' (pre @ ''github.com/'' @ name @ rest) \<and>
               (url = pre @ ''github.com/'' @ name @ rest @ ''/commits'' @ post \<or>
                url = pre @ ''github.com/'' @ name @ rest))"
    by (intro allI) (rule org_repo_link_name_iff)
  from first second third show ?thesis by (intro conjI)
qed

text \<open>
  C3. The claim, like the comment of line 204, has the organization and repository
  name, the part of the URL between \<open>github.com/\<close> and \<open>/commits\<close>, as the text of
  every link. Line 205 cuts the URL at its first \<open>/commits\<close>, wherever it is: for the
  repository \<open>commits-x\<close> of the organization \<open>o1\<close> the text of the link is \<open>o1\<close>, and
  for the organization \<open>commits-org\<close> the cut leaves no \<open>github.com/\<close> and the call
  fails with \<open>IndexError\<close>.
\<close>

theorem commit_link_text_cut_short:
  "get_contributor_table [carol] None None (Some ''o1'') (RScalar None) ''false'' ''true'' []
     = Inr ([(''Independent'',
              ''| Username | All Time Contribution Count | All Commits |'' @ nl
              @ ''| --- | --- | --- |'' @ nl
              @ ''| @carol | 3 | [o1](https://github.com/o1/commits-x/commits?author=carol),  |'' @ nl)],
            3) \<and>
   commit_url carol = ''https://'' @ ''github.com/'' @ ''o1/commits-x'' @ ''/commits'' @ ''?author=carol'' \<and>
   link_name (commit_url carol) = ''o1'' \<and>
   link_name (commit_url carol) \<noteq> ''o1/commits-x'' \<and>
   get_contributor_table [dave] None None (Some ''commits-org'') (RScalar None) ''false'' ''true'' []
     = Inl IndexError"
  by code_simp

theorem commit_reference_cell_witness:
  "get_contributor_table [alice, bob] (Some ''2024-01-01'') (Some ''2024-02-01'') (Some ''o1'')
     (RScalar None) ''true'' ''false'' [''o2'']
   = Inr (example_tables, 12) \<and>
   (\<exists>cells. length cells = length [alice, bob] \<and>
      example_tables =
        render_tables (table_headers (table_columns (Some ''2024-01-01'') (Some ''2024-02-01'') ''true''))
          (group_rows []
             (map (\<lambda>(c, cell).
                     (group_of [''o2''] c,
                      row_start (table_columns (Some ''2024-01-01'') (Some ''2024-02-01'') ''true'') ''false'' c
                      @ '' '' @ cell @ '' |'' @ nl))
                (zip [alice, bob] cells))) \<and>
      cells = [commit_links (commit_url alice), commit_links (commit_url bob)]) \<and>
   commit_links (commit_url bob) =
     ''[o1/r1](https://github.com/o1/r1/commits?author=bob), [o1/r2](https://github.com/o1/r2/commits?author=bob), '' \<and>
   \<not> sublist ''github.com/'' ''https://'' \<and> \<not> sublist ''github.com/'' ''o1/r1'' \<and>
   \<not> sublist ''/commits'' (''https://'' @ ''github.com/'' @ ''o1/r1'' @ []) \<and>
   org_repo_link_name (''https://'' @ ''github.com/'' @ ''o1/r1'' @ [] @ ''/commits'' @ ''?author=alice'')
     = Inr ''o1/r1'' \<and>
   \<not> sublist ''github.com/'' ''o1'' \<and>
   \<not> sublist ''/commits'' (''https://'' @ ''github.com/'' @ ''o1'' @ []) \<and>
   org_repo_link_name (''https://'' @ ''github.com/'' @ ''o1'' @ [] @ ''/commits'' @ ''-x/commits?author=carol'')
     = Inr ''o1''"
proof -
  note r = commit_reference_cell [OF example_run]
  from r have a: "\<exists>cells. length cells = length [alice, bob] \<and>
      example_tables =
        render_tables (table_headers (table_columns (Some ''2024-01-01'') (Some ''2024-02-01'') ''true''))
          (group_rows []
             (map (\<lambda>(c, cell).
                     (group_of [''o2''] c,
                      row_start (table_columns (Some ''2024-01-01'') (Some ''2024-02-01'') ''true'') ''false'' c
                      @ '' '' @ cell @ '' |'' @ nl))
                (zip [alice, bob] cells))) \<and>
      cells = [commit_links (commit_url alice), commit_links (commit_url bob)]"
    by simp
  have b: "commit_links (commit_url bob) =
     ''[o1/r1](https://github.com/o1/r1/commits?author=bob), [o1/r2](https://github.com/o1/r2/commits?author=bob), ''"
    by code_simp
  have c1: "\<not> sublist ''github.com/'' ''https://''" by code_simp
  have c2: "\<not> sublist ''github.com/'' ''o1/r1''" by code_simp
  have c3: "\<not> sublist ''/commits'' (''https://'' @ ''github.com/'' @ ''o1/r1'' @ [])" by code_simp
  have c4: "\<not> sublist ''github.com/'' ''o1''" by code_simp
  have c5: "\<not> sublist ''/commits'' (''https://'' @ ''github.com/'' @ ''o1'' @ [])" by code_simp
  note third = conjunct2 [OF conjunct2 [OF r], rule_format]
  have d: "org_repo_link_name (''https://'' @ ''github.com/'' @ ''o1/r1'' @ [] @ ''/commits'' @ ''?author=alice'')
     = Inr ''o1/r1''"
    by (rule third [THEN iffD2], intro exI [of _ "''https://''"] exI [of _ "[]"]
          exI [of _ "''?author=alice''"] conjI disjI1 c1 c2 c3 refl)
  have e: "org_repo_link_name (''https://'' @ ''github.com/'' @ ''o1'' @ [] @ ''/commits'' @ ''-x/commits?author=carol'')
     = Inr ''o1''"
    by (rule third [THEN iffD2], intro exI [of _ "''https://''"] exI [of _ "[]"]
          exI [of _ "''-x/commits?author=carol''"] conjI disjI1 c1 c4 c5 refl)
  from example_run a b c1 c2 c3 d c4 c5 e show ?thesis by (intro conjI)
qed

end
